theory Spec2Isabelle
  imports Complex_Main
begin

section \<open>JavaScript numbers\<close>

text \<open>
  A JavaScript \<^verbatim>\<open>number\<close> is modelled as a real number or one of the three special
  values of IEEE arithmetic.  Finite doubles are idealised as reals: rounding, overflow
  and the sign of zero are not modelled (a zero divisor counts as \<open>+0\<close>).  The operations
  follow the language: \<^verbatim>\<open>NaN\<close> is contagious, \<open>0/0\<close> and \<open>\<infinity> - \<infinity>\<close> are \<^verbatim>\<open>NaN\<close>,
  and every comparison with \<^verbatim>\<open>NaN\<close> is false.
\<close>

datatype jsnum = Fin real | PosInf | NegInf | NaN

fun js_neg :: "jsnum \<Rightarrow> jsnum" where
  "js_neg (Fin a) = Fin (- a)"
| "js_neg PosInf = NegInf"
| "js_neg NegInf = PosInf"
| "js_neg NaN = NaN"

fun js_add :: "jsnum \<Rightarrow> jsnum \<Rightarrow> jsnum" where
  "js_add (Fin a) (Fin b) = Fin (a + b)"
| "js_add NaN _ = NaN"
| "js_add _ NaN = NaN"
| "js_add PosInf NegInf = NaN"
| "js_add NegInf PosInf = NaN"
| "js_add PosInf _ = PosInf"
| "js_add _ PosInf = PosInf"
| "js_add NegInf _ = NegInf"
| "js_add _ NegInf = NegInf"

definition js_sub :: "jsnum \<Rightarrow> jsnum \<Rightarrow> jsnum" where
  "js_sub a b = js_add a (js_neg b)"

text \<open>The infinity with the sign of \<open>s\<close>; \<^verbatim>\<open>NaN\<close> when \<open>s\<close> is zero.\<close>

fun js_signed_inf :: "real \<Rightarrow> jsnum" where
  "js_signed_inf s = (if s = 0 then NaN else if 0 < s then PosInf else NegInf)"

fun js_mul :: "jsnum \<Rightarrow> jsnum \<Rightarrow> jsnum" where
  "js_mul (Fin a) (Fin b) = Fin (a * b)"
| "js_mul NaN _ = NaN"
| "js_mul _ NaN = NaN"
| "js_mul PosInf (Fin b) = js_signed_inf b"
| "js_mul NegInf (Fin b) = js_signed_inf (- b)"
| "js_mul (Fin a) PosInf = js_signed_inf a"
| "js_mul (Fin a) NegInf = js_signed_inf (- a)"
| "js_mul PosInf PosInf = PosInf"
| "js_mul NegInf NegInf = PosInf"
| "js_mul PosInf NegInf = NegInf"
| "js_mul NegInf PosInf = NegInf"

text \<open>\<^verbatim>\<open>a ** 2\<close>.\<close>

definition js_pow2 :: "jsnum \<Rightarrow> jsnum" where
  "js_pow2 a = js_mul a a"

fun js_div :: "jsnum \<Rightarrow> jsnum \<Rightarrow> jsnum" where
  "js_div (Fin a) (Fin b) = (if b = 0 then js_signed_inf a else Fin (a / b))"
| "js_div NaN _ = NaN"
| "js_div _ NaN = NaN"
| "js_div (Fin a) PosInf = Fin 0"
| "js_div (Fin a) NegInf = Fin 0"
| "js_div PosInf (Fin b) = (if 0 \<le> b then PosInf else NegInf)"
| "js_div NegInf (Fin b) = (if 0 \<le> b then NegInf else PosInf)"
| "js_div PosInf _ = NaN"
| "js_div NegInf _ = NaN"

text \<open>\<^verbatim>\<open>Math.sqrt\<close>.\<close>

fun js_sqrt :: "jsnum \<Rightarrow> jsnum" where
  "js_sqrt (Fin a) = (if a < 0 then NaN else Fin (sqrt a))"
| "js_sqrt PosInf = PosInf"
| "js_sqrt NegInf = NaN"
| "js_sqrt NaN = NaN"

text \<open>\<^verbatim>\<open>a < b\<close>.\<close>

fun js_lt :: "jsnum \<Rightarrow> jsnum \<Rightarrow> bool" where
  "js_lt (Fin a) (Fin b) = (a < b)"
| "js_lt NaN _ = False"
| "js_lt _ NaN = False"
| "js_lt _ NegInf = False"
| "js_lt PosInf _ = False"
| "js_lt NegInf _ = True"
| "js_lt _ PosInf = True"

text \<open>
  \<^verbatim>\<open>Math.max\<close> and \<^verbatim>\<open>Math.min\<close>: \<^verbatim>\<open>NaN\<close> as soon as one argument is \<^verbatim>\<open>NaN\<close>;
  \<^verbatim>\<open>-Infinity\<close> and \<^verbatim>\<open>Infinity\<close> when there is no argument.
\<close>

fun js_max2 :: "jsnum \<Rightarrow> jsnum \<Rightarrow> jsnum" where
  "js_max2 NaN _ = NaN"
| "js_max2 _ NaN = NaN"
| "js_max2 a b = (if js_lt a b then b else a)"

fun js_min2 :: "jsnum \<Rightarrow> jsnum \<Rightarrow> jsnum" where
  "js_min2 NaN _ = NaN"
| "js_min2 _ NaN = NaN"
| "js_min2 a b = (if js_lt b a then b else a)"

definition Math_max :: "jsnum list \<Rightarrow> jsnum" where
  "Math_max xs = foldl js_max2 NegInf xs"

definition Math_min :: "jsnum list \<Rightarrow> jsnum" where
  "Math_min xs = foldl js_min2 PosInf xs"

text \<open>Truthiness of a number, and \<^verbatim>\<open>a || b\<close> on numbers.\<close>

fun js_truthy :: "jsnum \<Rightarrow> bool" where
  "js_truthy (Fin a) = (a \<noteq> 0)"
| "js_truthy NaN = False"
| "js_truthy _ = True"

definition js_or :: "jsnum \<Rightarrow> jsnum \<Rightarrow> jsnum" where
  "js_or a b = (if js_truthy a then a else b)"

fun is_Fin :: "jsnum \<Rightarrow> bool" where
  "is_Fin (Fin a) = True"
| "is_Fin _ = False"

fun fin_val :: "jsnum \<Rightarrow> real" where
  "fin_val (Fin a) = a"
| "fin_val _ = 0"

fun in_unit :: "jsnum \<Rightarrow> bool" where
  "in_unit (Fin a) = (0 \<le> a \<and> a \<le> 1)"
| "in_unit _ = False"

text \<open>Array indexing \<^verbatim>\<open>xs[i]\<close>: \<^verbatim>\<open>undefined\<close> (here \<open>None\<close>) out of range.\<close>

definition js_index :: "'a list \<Rightarrow> nat \<Rightarrow> 'a option" where
  "js_index xs i = (if i < length xs then Some (xs ! i) else None)"

section \<open>Strings and numbers\<close>

text \<open>
  The template literal \<^verbatim>\<open>`${r}-${c}`\<close> prints the loop counters, which are natural
  numbers, in decimal.
\<close>

definition digit_char :: "nat \<Rightarrow> char" where
  "digit_char d = ''0123456789'' ! d"

function toString :: "nat \<Rightarrow> string" where
  "toString n = (if n < 10 then [digit_char n] else toString (n div 10) @ [digit_char (n mod 10)])"
  by pat_completeness auto
termination
  by (relation "measure (\<lambda>n. n)") auto

declare toString.simps [simp del]

text \<open>
  \<^verbatim>\<open>s.split(sep)\<close> for a one-character separator: the pieces between the separators,
  never an empty array.
\<close>

fun split :: "char \<Rightarrow> string \<Rightarrow> string list" where
  "split sep [] = [[]]"
| "split sep (c # cs) =
     (if c = sep then [] # split sep cs
      else (case split sep cs of [] \<Rightarrow> [[c]] | w # ws \<Rightarrow> (c # w) # ws))"

text \<open>
  \<^verbatim>\<open>Number(s)\<close> on a string, after the language's grammar of numeric string literals:
  surrounding white space is dropped, the empty string is \<open>0\<close>, then either a binary,
  octal or hexadecimal integer (\<^verbatim>\<open>0b\<close>, \<^verbatim>\<open>0o\<close>, \<^verbatim>\<open>0x\<close>, unsigned) or an optionally
  signed decimal literal (\<^verbatim>\<open>Infinity\<close>, digits with an optional fraction and exponent);
  anything else is \<^verbatim>\<open>NaN\<close>.  Only the ASCII white space characters are modelled.
  \<^verbatim>\<open>Number(undefined)\<close> is \<^verbatim>\<open>NaN\<close>.
\<close>

definition is_space :: "char \<Rightarrow> bool" where
  "is_space c = (c \<in> set [CHR 0x09, CHR 0x0A, CHR 0x0B, CHR 0x0C, CHR 0x0D, CHR '' ''])"

definition trim :: "string \<Rightarrow> string" where
  "trim s = rev (dropWhile is_space (rev (dropWhile is_space s)))"

definition is_digit :: "char \<Rightarrow> bool" where
  "is_digit c = (c \<in> set ''0123456789'')"

definition digit_in :: "nat \<Rightarrow> char \<Rightarrow> nat option" where
  "digit_in base c =
     (let v = (if is_digit c then of_char c - 48
               else if c \<in> set ''abcdef'' then of_char c - 87
               else if c \<in> set ''ABCDEF'' then of_char c - 55
               else base)
      in if v < base then Some v else None)"

fun digits_value :: "nat \<Rightarrow> string \<Rightarrow> nat \<Rightarrow> nat option" where
  "digits_value base [] acc = Some acc"
| "digits_value base (c # cs) acc =
     (case digit_in base c of None \<Rightarrow> None
      | Some v \<Rightarrow> digits_value base cs (acc * base + v))"

definition parse_digits :: "nat \<Rightarrow> string \<Rightarrow> nat option" where
  "parse_digits base s = (if s = [] then None else digits_value base s 0)"

definition parse_exponent :: "string \<Rightarrow> int option" where
  "parse_exponent s =
     (if s = [] then Some 0
      else if hd s = CHR ''e'' \<or> hd s = CHR ''E'' then
        (let r = tl s in
         if r \<noteq> [] \<and> hd r = CHR ''+'' then map_option int (parse_digits 10 (tl r))
         else if r \<noteq> [] \<and> hd r = CHR ''-'' then map_option (\<lambda>n. - int n) (parse_digits 10 (tl r))
         else map_option int (parse_digits 10 r))
      else None)"

definition scale10 :: "real \<Rightarrow> int \<Rightarrow> real" where
  "scale10 m e = (if 0 \<le> e then m * 10 ^ nat e else m / 10 ^ nat (- e))"

definition parse_unsigned_decimal :: "string \<Rightarrow> jsnum" where
  "parse_unsigned_decimal s =
     (if s = ''Infinity'' then PosInf
      else
        let ip = takeWhile is_digit s;
            r1 = dropWhile is_digit s;
            has_dot = (r1 \<noteq> [] \<and> hd r1 = CHR ''.'');
            fp = (if has_dot then takeWhile is_digit (tl r1) else []);
            r2 = (if has_dot then dropWhile is_digit (tl r1) else r1)
        in if ip = [] \<and> fp = [] then NaN
           else (case (digits_value 10 ip 0, digits_value 10 fp 0, parse_exponent r2) of
                   (Some i, Some f, Some e) \<Rightarrow> Fin (scale10 (real i + real f / 10 ^ length fp) e)
                 | _ \<Rightarrow> NaN))"

definition parse_decimal :: "string \<Rightarrow> jsnum" where
  "parse_decimal s =
     (if s \<noteq> [] \<and> hd s = CHR ''+'' then parse_unsigned_decimal (tl s)
      else if s \<noteq> [] \<and> hd s = CHR ''-'' then js_neg (parse_unsigned_decimal (tl s))
      else parse_unsigned_decimal s)"

definition radix_of :: "char \<Rightarrow> nat option" where
  "radix_of c = (if c = CHR ''x'' \<or> c = CHR ''X'' then Some 16
                 else if c = CHR ''o'' \<or> c = CHR ''O'' then Some 8
                 else if c = CHR ''b'' \<or> c = CHR ''B'' then Some 2
                 else None)"

definition parse_non_decimal :: "string \<Rightarrow> jsnum option" where
  "parse_non_decimal s =
     (case s of
        z # p # ds \<Rightarrow>
          (if z = CHR ''0'' then
             (case radix_of p of None \<Rightarrow> None
              | Some base \<Rightarrow>
                  Some (case parse_digits base ds of None \<Rightarrow> NaN | Some n \<Rightarrow> Fin (real n)))
           else None)
      | _ \<Rightarrow> None)"

definition StringToNumber :: "string \<Rightarrow> jsnum" where
  "StringToNumber str =
     (let s = trim str in
      if s = [] then Fin 0
      else (case parse_non_decimal s of Some v \<Rightarrow> v | None \<Rightarrow> parse_decimal s))"

fun Number :: "string option \<Rightarrow> jsnum" where
  "Number None = NaN"
| "Number (Some s) = StringToNumber s"

section \<open>Mesh data model\<close>

text \<open>
  \<^verbatim>\<open>type MeshPoint = { id: string; x: number; y: number }\<close>,
  \<^verbatim>\<open>type Mesh = MeshPoint[]\<close> and \<^verbatim>\<open>type Size = { width: number; height: number }\<close>.
  The fields of a point carry the prefix \<open>p_\<close>.
\<close>

record MeshPoint =
  p_id :: string
  p_x :: jsnum
  p_y :: jsnum

type_synonym Mesh = "MeshPoint list"

record Size =
  width :: jsnum
  height :: jsnum

text \<open>Meshes whose coordinates are all finite numbers.\<close>

definition finite_point :: "MeshPoint \<Rightarrow> bool" where
  "finite_point p = (is_Fin (p_x p) \<and> is_Fin (p_y p))"

definition finite_mesh :: "Mesh \<Rightarrow> bool" where
  "finite_mesh m = list_all finite_point m"

section \<open>Default mesh and grid shape\<close>

text \<open>
  \<^verbatim>\<open>buildDefaultMesh(rows, cols)\<close>: two nested counting loops that push one point per
  iteration.  \<open>defaultPoint\<close> is the object literal of the loop body, the two functions
  below are the inner and the outer loop with the array built so far as accumulator.
  The counts are natural numbers.  Nothing in the function checks them.
\<close>

definition defaultPoint :: "nat \<Rightarrow> nat \<Rightarrow> nat \<Rightarrow> nat \<Rightarrow> MeshPoint" where
  "defaultPoint rows cols r c =
     \<lparr>p_id = toString r @ ''-'' @ toString c,
      p_x = js_div (Fin (real c)) (js_sub (Fin (real cols)) (Fin 1)),
      p_y = js_div (Fin (real r)) (js_sub (Fin (real rows)) (Fin 1))\<rparr>"

function buildDefaultMesh_inner :: "nat \<Rightarrow> nat \<Rightarrow> nat \<Rightarrow> nat \<Rightarrow> Mesh \<Rightarrow> Mesh" where
  "buildDefaultMesh_inner rows cols r c points =
     (if c < cols
      then buildDefaultMesh_inner rows cols r (c + 1) (points @ [defaultPoint rows cols r c])
      else points)"
  by pat_completeness auto
termination
  by (relation "measure (\<lambda>(rows, cols, r, c, points). cols - c)") auto

function buildDefaultMesh_outer :: "nat \<Rightarrow> nat \<Rightarrow> nat \<Rightarrow> Mesh \<Rightarrow> Mesh" where
  "buildDefaultMesh_outer rows cols r points =
     (if r < rows
      then buildDefaultMesh_outer rows cols (r + 1) (buildDefaultMesh_inner rows cols r 0 points)
      else points)"
  by pat_completeness auto
termination
  by (relation "measure (\<lambda>(rows, cols, r, points). rows - r)") auto

declare buildDefaultMesh_inner.simps [simp del] buildDefaultMesh_outer.simps [simp del]

definition buildDefaultMesh :: "nat \<Rightarrow> nat \<Rightarrow> Mesh" where
  "buildDefaultMesh rows cols = buildDefaultMesh_outer rows cols 0 []"

definition DEFAULT_ROWS :: nat where
  "DEFAULT_ROWS = 4"

definition DEFAULT_COLS :: nat where
  "DEFAULT_COLS = 4"

text \<open>
  The editor derives the grid dimensions from the ids:
  \<^verbatim>\<open>Math.max(...mesh.map((p) => Number(p.id.split('-')[0]))) + 1 || 1\<close> for the rows and
  the same with index \<open>1\<close> for the columns.
\<close>

definition row_index :: "MeshPoint \<Rightarrow> jsnum" where
  "row_index p = Number (js_index (split CHR ''-'' (p_id p)) 0)"

definition col_index :: "MeshPoint \<Rightarrow> jsnum" where
  "col_index p = Number (js_index (split CHR ''-'' (p_id p)) 1)"

definition mesh_rows :: "Mesh \<Rightarrow> jsnum" where
  "mesh_rows mesh = js_or (js_add (Math_max (map row_index mesh)) (Fin 1)) (Fin 1)"

definition mesh_cols :: "Mesh \<Rightarrow> jsnum" where
  "mesh_cols mesh = js_or (js_add (Math_max (map col_index mesh)) (Fin 1)) (Fin 1)"

text \<open>
  The two operations seen as fallible ones.  The source has no failing branch in either:
  no \<^verbatim>\<open>throw\<close>, no check of the arguments or of the ids.  Their result is therefore
  always a value (\<open>Inr\<close>), never an error (\<open>Inl\<close>).
\<close>

datatype error = InvalidDimension | MalformedMesh

definition generate :: "nat \<Rightarrow> nat \<Rightarrow> error + Mesh" where
  "generate rows cols = Inr (buildDefaultMesh rows cols)"

definition gridShape :: "Mesh \<Rightarrow> error + jsnum \<times> jsnum" where
  "gridShape mesh = Inr (mesh_rows mesh, mesh_cols mesh)"

section \<open>Serialisation used for change detection\<close>

text \<open>
  \<^verbatim>\<open>JSON.stringify\<close> is modelled by the JSON value it prints.  The printed text
  determines that value and is determined by it, so two texts are equal exactly when the
  values are.  A finite number prints as itself; \<^verbatim>\<open>NaN\<close> and the infinities print
  as \<^verbatim>\<open>null\<close>.
\<close>

datatype json = JNull | JNum real | JStr string | JArr "json list" | JObj "(string \<times> json) list"

fun stringify_num :: "jsnum \<Rightarrow> json" where
  "stringify_num (Fin a) = JNum a"
| "stringify_num _ = JNull"

definition stringify_point :: "MeshPoint \<Rightarrow> json" where
  "stringify_point p =
     JObj [(''id'', JStr (p_id p)), (''x'', stringify_num (p_x p)), (''y'', stringify_num (p_y p))]"

definition JSON_stringify :: "Mesh \<Rightarrow> json" where
  "JSON_stringify m = JArr (map stringify_point m)"

section \<open>Mesh history (undo and redo)\<close>

text \<open>
  The state of \<^verbatim>\<open>useMeshHistory\<close>: the snapshot array \<^verbatim>\<open>historyRef.current\<close>, the
  cursor \<^verbatim>\<open>indexRef.current\<close> and the displayed mesh (set by \<^verbatim>\<open>setMeshInternal\<close>;
  \<open>None\<close> is \<^verbatim>\<open>undefined\<close>).  The top-level component keeps the same three pieces
  and runs the same statements in its \<^verbatim>\<open>setMesh\<close>, \<^verbatim>\<open>handleUndo\<close> and \<^verbatim>\<open>handleRedo\<close>,
  with a bound of 30 instead of 50; the bound is a parameter here.
\<close>

record MeshHistory =
  historyRef :: "Mesh list"
  indexRef :: nat
  meshState :: "Mesh option"

definition useMeshHistory :: "Mesh \<Rightarrow> MeshHistory" where
  "useMeshHistory initialMesh =
     \<lparr>historyRef = [initialMesh], indexRef = 0, meshState = Some initialMesh\<rparr>"

definition MAX_HISTORY :: nat where
  "MAX_HISTORY = 50"

definition MAX_HISTORY_App :: nat where
  "MAX_HISTORY_App = 30"

definition setMesh :: "nat \<Rightarrow> Mesh \<Rightarrow> MeshHistory \<Rightarrow> MeshHistory" where
  "setMesh bound resolvedMesh h =
     (let currentMesh = js_index (historyRef h) (indexRef h);
          hasChanged = (Some (JSON_stringify resolvedMesh) \<noteq> map_option JSON_stringify currentMesh)
      in if \<not> hasChanged then h
         else
           let pushed = take (indexRef h + 1) (historyRef h) @ [resolvedMesh]
           in if length pushed > bound
              then h\<lparr>historyRef := tl pushed, meshState := Some resolvedMesh\<rparr>
              else h\<lparr>historyRef := pushed, indexRef := indexRef h + 1,
                     meshState := Some resolvedMesh\<rparr>)"

text \<open>The functional form \<^verbatim>\<open>setMesh(prev => ...)\<close> resolves against the snapshot at the cursor.\<close>

definition setMesh_updater :: "nat \<Rightarrow> (Mesh option \<Rightarrow> Mesh) \<Rightarrow> MeshHistory \<Rightarrow> MeshHistory" where
  "setMesh_updater bound f h = setMesh bound (f (js_index (historyRef h) (indexRef h))) h"

definition undo :: "MeshHistory \<Rightarrow> MeshHistory" where
  "undo h =
     (if indexRef h > 0
      then h\<lparr>indexRef := indexRef h - 1,
             meshState := js_index (historyRef h) (indexRef h - 1)\<rparr>
      else h)"

definition redo :: "MeshHistory \<Rightarrow> MeshHistory" where
  "redo h =
     (if int (indexRef h) < int (length (historyRef h)) - 1
      then h\<lparr>indexRef := indexRef h + 1,
             meshState := js_index (historyRef h) (indexRef h + 1)\<rparr>
      else h)"

definition resetHistory :: "Mesh \<Rightarrow> MeshHistory \<Rightarrow> MeshHistory" where
  "resetHistory newMesh h = \<lparr>historyRef = [newMesh], indexRef = 0, meshState = Some newMesh\<rparr>"

definition canUndo :: "MeshHistory \<Rightarrow> bool" where
  "canUndo h = (indexRef h > 0)"

definition canRedo :: "MeshHistory \<Rightarrow> bool" where
  "canRedo h = (int (indexRef h) < int (length (historyRef h)) - 1)"

definition historyLength :: "MeshHistory \<Rightarrow> nat" where
  "historyLength h = length (historyRef h)"

text \<open>Recording a sequence of meshes, one \<^verbatim>\<open>setMesh\<close> call after the other.\<close>

definition record_all :: "nat \<Rightarrow> Mesh list \<Rightarrow> MeshHistory \<Rightarrow> MeshHistory" where
  "record_all bound ms h = foldl (\<lambda>h' m. setMesh bound m h') h ms"

text \<open>A history whose cursor is at the newest snapshot.\<close>

definition at_tip :: "MeshHistory \<Rightarrow> bool" where
  "at_tip h = (historyRef h \<noteq> [] \<and> indexRef h = length (historyRef h) - 1)"

section \<open>Mesh editor: hit test and drag\<close>

text \<open>
  \<^verbatim>\<open>findNearestPoint\<close> and \<^verbatim>\<open>updatePoint\<close> of the editor component (both versions of
  the component have the same two functions).  The layout size is \<^verbatim>\<open>null\<close> until the
  first layout event, here \<open>None\<close>.  \<open>point_dist\<close> is the distance computed in the loop
  body; the loop carries \<^verbatim>\<open>nearest\<close> and \<^verbatim>\<open>minDist\<close>.  \<^verbatim>\<open>updatePoint\<close> hands the new
  mesh to \<^verbatim>\<open>onMeshChange\<close>; the model returns it, and \<open>None\<close> when the function returns
  without calling back.
\<close>

definition HANDLE_RADIUS :: jsnum where
  "HANDLE_RADIUS = Fin 12"

definition HANDLE_HIT_SLOP :: jsnum where
  "HANDLE_HIT_SLOP = Fin 20"

definition point_dist :: "Size \<Rightarrow> jsnum \<Rightarrow> jsnum \<Rightarrow> MeshPoint \<Rightarrow> jsnum" where
  "point_dist sz touchX touchY point =
     (let px = js_mul (p_x point) (width sz);
          py = js_mul (p_y point) (height sz)
      in js_sqrt (js_add (js_pow2 (js_sub touchX px)) (js_pow2 (js_sub touchY py))))"

fun findNearestPoint_loop ::
  "Size \<Rightarrow> jsnum \<Rightarrow> jsnum \<Rightarrow> Mesh \<Rightarrow> string option \<times> jsnum \<Rightarrow> string option \<times> jsnum" where
  "findNearestPoint_loop sz touchX touchY [] (nearest, minDist) = (nearest, minDist)"
| "findNearestPoint_loop sz touchX touchY (point # rest) (nearest, minDist) =
     (let dist = point_dist sz touchX touchY point
      in if js_lt dist minDist
         then findNearestPoint_loop sz touchX touchY rest (Some (p_id point), dist)
         else findNearestPoint_loop sz touchX touchY rest (nearest, minDist))"

definition findNearestPoint :: "Size option \<Rightarrow> Mesh \<Rightarrow> jsnum \<Rightarrow> jsnum \<Rightarrow> string option" where
  "findNearestPoint sz mesh touchX touchY =
     (case sz of
        None \<Rightarrow> None
      | Some s \<Rightarrow>
          fst (findNearestPoint_loop s touchX touchY mesh
                 (None, js_add HANDLE_HIT_SLOP HANDLE_RADIUS)))"

definition updatePoint :: "Size option \<Rightarrow> Mesh \<Rightarrow> string \<Rightarrow> jsnum \<Rightarrow> jsnum \<Rightarrow> Mesh option" where
  "updatePoint sz mesh ident touchX touchY =
     (case sz of
        None \<Rightarrow> None
      | Some s \<Rightarrow>
          (let clampedX = js_max2 (Fin 0) (js_min2 (width s) touchX);
               clampedY = js_max2 (Fin 0) (js_min2 (height s) touchY)
           in Some (map (\<lambda>p. if p_id p = ident
                               then p\<lparr>p_x := js_div clampedX (width s),
                                      p_y := js_div clampedY (height s)\<rparr>
                               else p) mesh)))"

text \<open>
  The Euclidean distance in pixels between a touch and a point with finite coordinates,
  in a viewport of \<open>w\<close> by \<open>h\<close> pixels.
\<close>

definition pixel_distance :: "real \<Rightarrow> real \<Rightarrow> real \<Rightarrow> real \<Rightarrow> MeshPoint \<Rightarrow> real" where
  "pixel_distance w h tx ty p =
     sqrt ((tx - fin_val (p_x p) * w)\<^sup>2 + (ty - fin_val (p_y p) * h)\<^sup>2)"

section \<open>Warp renderer\<close>

text \<open>
  The canvas renderer.  Its effect on the cleared canvas is the sequence of drawing calls
  it issues: per sub-quad the clip path through the four interpolated corners, then
  \<^verbatim>\<open>drawImage\<close> from the source sub-rectangle into the bounding box of the corners
  (\<^verbatim>\<open>drawImage\<close> may throw while the video is not ready; the exception is caught and
  ignored).  \<open>subQuad\<close> is the body of the two inner loops (\<open>i\<close> outer, \<open>j\<close> inner),
  \<open>render_cell\<close> the body of the two loops over the cells; \<open>render\<close> draws nothing
  (\<open>None\<close>) while the video is paused or has ended.
\<close>

record Point2 =
  pt_x :: jsnum
  pt_y :: jsnum

record Video =
  paused :: bool
  ended :: bool
  videoWidth :: jsnum
  videoHeight :: jsnum

record DrawCall =
  clipPath :: "Point2 list"
  srcRect :: "jsnum \<times> jsnum \<times> jsnum \<times> jsnum"
  dstRect :: "jsnum \<times> jsnum \<times> jsnum \<times> jsnum"

definition getMeshPoint :: "Mesh \<Rightarrow> jsnum \<Rightarrow> jsnum \<Rightarrow> nat \<Rightarrow> nat \<Rightarrow> nat \<Rightarrow> Point2" where
  "getMeshPoint mesh w h gridSize row col =
     (case js_index mesh (row * gridSize + col) of
        Some point \<Rightarrow> \<lparr>pt_x = js_mul (p_x point) w, pt_y = js_mul (p_y point) h\<rparr>
      | None \<Rightarrow>
          \<lparr>pt_x = js_mul (js_div (Fin (real col)) (js_sub (Fin (real gridSize)) (Fin 1))) w,
           pt_y = js_mul (js_div (Fin (real row)) (js_sub (Fin (real gridSize)) (Fin 1))) h\<rparr>)"

definition lerp :: "jsnum \<Rightarrow> jsnum \<Rightarrow> jsnum \<Rightarrow> jsnum" where
  "lerp a b t = js_add a (js_mul (js_sub b a) t)"

definition bilinear :: "Point2 \<Rightarrow> Point2 \<Rightarrow> Point2 \<Rightarrow> Point2 \<Rightarrow> jsnum \<Rightarrow> jsnum \<Rightarrow> Point2" where
  "bilinear p0 p1 p2 p3 u v =
     \<lparr>pt_x = lerp (lerp (pt_x p0) (pt_x p1) u) (lerp (pt_x p3) (pt_x p2) u) v,
      pt_y = lerp (lerp (pt_y p0) (pt_y p1) u) (lerp (pt_y p3) (pt_y p2) u) v\<rparr>"

definition subQuad ::
  "jsnum \<Rightarrow> jsnum \<Rightarrow> jsnum \<Rightarrow> jsnum \<Rightarrow> Point2 \<Rightarrow> Point2 \<Rightarrow> Point2 \<Rightarrow> Point2 \<Rightarrow> nat \<Rightarrow> nat \<Rightarrow> nat
     \<Rightarrow> DrawCall" where
  "subQuad srcX srcY srcW srcH p0 p1 p2 p3 subdivisions i j =
     (let u0 = js_div (Fin (real i)) (Fin (real subdivisions));
          u1 = js_div (js_add (Fin (real i)) (Fin 1)) (Fin (real subdivisions));
          v0 = js_div (Fin (real j)) (Fin (real subdivisions));
          v1 = js_div (js_add (Fin (real j)) (Fin 1)) (Fin (real subdivisions));
          q0 = bilinear p0 p1 p2 p3 u0 v0;
          q1 = bilinear p0 p1 p2 p3 u1 v0;
          q2 = bilinear p0 p1 p2 p3 u1 v1;
          q3 = bilinear p0 p1 p2 p3 u0 v1;
          subSrcX = js_add srcX (js_mul srcW u0);
          subSrcY = js_add srcY (js_mul srcH v0);
          subSrcW = js_div srcW (Fin (real subdivisions));
          subSrcH = js_div srcH (Fin (real subdivisions));
          minX = Math_min [pt_x q0, pt_x q1, pt_x q2, pt_x q3];
          minY = Math_min [pt_y q0, pt_y q1, pt_y q2, pt_y q3];
          maxX = Math_max [pt_x q0, pt_x q1, pt_x q2, pt_x q3];
          maxY = Math_max [pt_y q0, pt_y q1, pt_y q2, pt_y q3]
      in \<lparr>clipPath = [q0, q1, q2, q3],
          srcRect = (subSrcX, subSrcY, subSrcW, subSrcH),
          dstRect = (minX, minY, js_sub maxX minX, js_sub maxY minY)\<rparr>)"

definition drawWarpedQuad ::
  "jsnum \<Rightarrow> jsnum \<Rightarrow> jsnum \<Rightarrow> jsnum \<Rightarrow> Point2 \<Rightarrow> Point2 \<Rightarrow> Point2 \<Rightarrow> Point2 \<Rightarrow> nat
     \<Rightarrow> DrawCall list" where
  "drawWarpedQuad srcX srcY srcW srcH p0 p1 p2 p3 subdivisions =
     concat (map (\<lambda>i. map (\<lambda>j. subQuad srcX srcY srcW srcH p0 p1 p2 p3 subdivisions i j)
                          [0..<subdivisions])
                 [0..<subdivisions])"

definition render_cell :: "Mesh \<Rightarrow> jsnum \<Rightarrow> jsnum \<Rightarrow> nat \<Rightarrow> Video \<Rightarrow> nat \<Rightarrow> nat \<Rightarrow> DrawCall list" where
  "render_cell mesh w h gridSize video row col =
     (let videoWidth = js_or (videoWidth video) w;
          videoHeight = js_or (videoHeight video) h;
          cellWidth = js_div videoWidth (js_sub (Fin (real gridSize)) (Fin 1));
          cellHeight = js_div videoHeight (js_sub (Fin (real gridSize)) (Fin 1));
          p0 = getMeshPoint mesh w h gridSize row col;
          p1 = getMeshPoint mesh w h gridSize row (col + 1);
          p2 = getMeshPoint mesh w h gridSize (row + 1) (col + 1);
          p3 = getMeshPoint mesh w h gridSize (row + 1) col
      in drawWarpedQuad (js_mul (Fin (real col)) cellWidth) (js_mul (Fin (real row)) cellHeight)
           cellWidth cellHeight p0 p1 p2 p3 2)"

definition render :: "Mesh \<Rightarrow> jsnum \<Rightarrow> jsnum \<Rightarrow> nat \<Rightarrow> Video \<Rightarrow> DrawCall list option" where
  "render mesh w h gridSize video =
     (if \<not> paused video \<and> \<not> ended video
      then Some (concat (map (\<lambda>row. concat (map (\<lambda>col. render_cell mesh w h gridSize video row col)
                                               [0..<gridSize - 1]))
                             [0..<gridSize - 1]))
      else None)"

text \<open>
  What an unwarped rendering draws for sub-cell \<open>(i, j)\<close> of cell \<open>(row, col)\<close>, with two
  subdivisions per cell: the source sub-rectangle is the proportional part of the source
  cell, the destination is the same rectangle scaled by the ratio of output size to source
  size, and the clip path runs through the four corners of that destination rectangle.
  This definition follows the specification, not the code; the renderer is compared with
  it below.
\<close>

definition unwarped_call ::
  "real \<Rightarrow> real \<Rightarrow> real \<Rightarrow> real \<Rightarrow> nat \<Rightarrow> nat \<Rightarrow> nat \<Rightarrow> nat \<Rightarrow> nat \<Rightarrow> DrawCall" where
  "unwarped_call w h vw vh gridSize row col i j =
     (let sx = (real col + real i / 2) * (vw / (real gridSize - 1));
          sy = (real row + real j / 2) * (vh / (real gridSize - 1));
          sw = vw / (real gridSize - 1) / 2;
          sh = vh / (real gridSize - 1) / 2;
          kx = w / vw;
          ky = h / vh
      in \<lparr>clipPath = [\<lparr>pt_x = Fin (sx * kx), pt_y = Fin (sy * ky)\<rparr>,
                      \<lparr>pt_x = Fin ((sx + sw) * kx), pt_y = Fin (sy * ky)\<rparr>,
                      \<lparr>pt_x = Fin ((sx + sw) * kx), pt_y = Fin ((sy + sh) * ky)\<rparr>,
                      \<lparr>pt_x = Fin (sx * kx), pt_y = Fin ((sy + sh) * ky)\<rparr>],
          srcRect = (Fin sx, Fin sy, Fin sw, Fin sh),
          dstRect = (Fin (sx * kx), Fin (sy * ky), Fin (sw * kx), Fin (sh * ky))\<rparr>)"

section \<open>Playback controller\<close>

text \<open>
  The state of the playback screen together with the two pieces of state of the top-level
  component that its handlers read and change (the cue list and the cue cursor).  Each
  handler maps the state before the event to the state after it.  \<^verbatim>\<open>onNextCue\<close> and
  \<^verbatim>\<open>onPrevCue\<close> are the top-level \<^verbatim>\<open>handleNextCue\<close> and \<^verbatim>\<open>handlePrevCue\<close>.
\<close>

record VideoCue =
  cue_id :: string
  cue_name :: string
  cue_uri :: string
  cue_loop :: bool
  cue_duration :: "jsnum option"
  cue_thumbnail :: "string option"
  cue_createdAt :: jsnum

record PlaybackState =
  playing :: bool
  armed :: bool
  showControls :: bool
  blackout :: bool
  videoCues :: "VideoCue list"
  currentCueIndex :: nat

definition TRIGGER_KEYS :: "string list" where
  "TRIGGER_KEYS = ['' '', ''Enter'', ''ArrowUp'', ''MediaPlayPause'', ''AudioVolumeUp'',
                   ''AudioVolumeDown'', ''VolumeUp'', ''VolumeDown'']"

definition NEXT_CUE_KEYS :: "string list" where
  "NEXT_CUE_KEYS = [''ArrowRight'', ''n'', ''N'']"

definition PREV_CUE_KEYS :: "string list" where
  "PREV_CUE_KEYS = [''ArrowLeft'', ''p'', ''P'']"

definition initialPlaybackState :: "VideoCue list \<Rightarrow> nat \<Rightarrow> PlaybackState" where
  "initialPlaybackState cues idx =
     \<lparr>playing = False, armed = True, showControls = True, blackout = False,
      videoCues = cues, currentCueIndex = idx\<rparr>"

definition handleNextCue :: "PlaybackState \<Rightarrow> PlaybackState" where
  "handleNextCue s =
     (if int (currentCueIndex s) < int (length (videoCues s)) - 1
      then s\<lparr>currentCueIndex := currentCueIndex s + 1\<rparr>
      else s)"

definition handlePrevCue :: "PlaybackState \<Rightarrow> PlaybackState" where
  "handlePrevCue s =
     (if currentCueIndex s > 0 then s\<lparr>currentCueIndex := currentCueIndex s - 1\<rparr> else s)"

text \<open>\<^verbatim>\<open>videoCues[currentCueIndex]?.loop || false\<close>.\<close>

definition currentCueLoop :: "PlaybackState \<Rightarrow> bool" where
  "currentCueLoop s =
     (case js_index (videoCues s) (currentCueIndex s) of Some cue \<Rightarrow> cue_loop cue | None \<Rightarrow> False)"

definition handleKeyPress :: "string \<Rightarrow> PlaybackState \<Rightarrow> PlaybackState" where
  "handleKeyPress key s =
     (if key = ''Escape'' then
        (let s' = s\<lparr>blackout := \<not> blackout s\<rparr>
         in if playing s then s'\<lparr>playing := False, armed := True\<rparr> else s')
      else if \<not> playing s \<and> key \<in> set NEXT_CUE_KEYS then handleNextCue s
      else if \<not> playing s \<and> key \<in> set PREV_CUE_KEYS then handlePrevCue s
      else if \<not> armed s \<or> blackout s then s
      else if key \<in> set TRIGGER_KEYS
        then s\<lparr>playing := True, armed := False, showControls := False\<rparr>
      else s)"

definition handlePlaybackFinished :: "PlaybackState \<Rightarrow> PlaybackState" where
  "handlePlaybackFinished s =
     (let s' = s\<lparr>playing := False, armed := True\<rparr>
      in if \<not> currentCueLoop s \<and> int (currentCueIndex s) < int (length (videoCues s)) - 1
         then handleNextCue s'
         else s')"

definition handleManualTrigger :: "PlaybackState \<Rightarrow> PlaybackState" where
  "handleManualTrigger s =
     (if \<not> armed s \<or> blackout s then s
      else s\<lparr>playing := True, armed := False, showControls := False\<rparr>)"

section \<open>Sample inputs\<close>

definition sample_mesh :: "real \<Rightarrow> Mesh" where
  "sample_mesh a = [\<lparr>p_id = ''0-0'', p_x = Fin a, p_y = Fin 0\<rparr>]"

definition sample_video :: Video where
  "sample_video = \<lparr>paused = False, ended = False, videoWidth = Fin 400, videoHeight = Fin 300\<rparr>"

definition sample_cues :: "VideoCue list" where
  "sample_cues =
     [\<lparr>cue_id = ''cue-1'', cue_name = ''Intro'', cue_uri = ''file:///intro.mp4'', cue_loop = False,
       cue_duration = None, cue_thumbnail = None, cue_createdAt = Fin 1\<rparr>,
      \<lparr>cue_id = ''cue-2'', cue_name = ''Finale'', cue_uri = ''file:///finale.mp4'', cue_loop = True,
       cue_duration = None, cue_thumbnail = None, cue_createdAt = Fin 2\<rparr>]"

section \<open>Printing and reading natural numbers\<close>

lemma digit_char_props:
  assumes "d < 10"
  shows "is_digit (digit_char d)" and "digit_in 10 (digit_char d) = Some d"
proof -
  from assms have d: "d = 0 \<or> d = 1 \<or> d = 2 \<or> d = 3 \<or> d = 4 \<or> d = 5 \<or> d = 6
      \<or> d = 7 \<or> d = 8 \<or> d = 9" by arith
  from d show "is_digit (digit_char d)"
    by (elim disjE) (simp_all add: is_digit_def digit_char_def)
  from d show "digit_in 10 (digit_char d) = Some d"
    by (elim disjE) (simp_all add: is_digit_def digit_char_def digit_in_def)
qed

lemma digits_value_append:
  "digits_value b (xs @ ys) acc =
     (case digits_value b xs acc of None \<Rightarrow> None | Some a \<Rightarrow> digits_value b ys a)"
  by (induction xs arbitrary: acc) (auto split: option.splits)

lemma toString_nonempty: "toString n \<noteq> []"
  by (subst toString.simps) simp

lemma toString_small: "n < 10 \<Longrightarrow> toString n = [digit_char n]"
  by (subst toString.simps) simp

lemma toString_digits: "list_all is_digit (toString n)"
proof (induction n rule: toString.induct)
  case (1 n)
  show ?case
  proof (cases "n < 10")
    case True
    then show ?thesis by (subst toString.simps) (simp add: digit_char_props)
  next
    case False
    with 1 show ?thesis by (subst toString.simps) (simp add: digit_char_props)
  qed
qed

lemma toString_value: "digits_value 10 (toString n) 0 = Some n"
proof (induction n rule: toString.induct)
  case (1 n)
  show ?case
  proof (cases "n < 10")
    case True
    then show ?thesis by (subst toString.simps) (simp add: digit_char_props)
  next
    case False
    with 1 show ?thesis
      by (subst toString.simps) (simp add: digits_value_append digit_char_props)
  qed
qed

lemma toString_inj: "toString a = toString b \<Longrightarrow> a = b"
  by (metis toString_value option.inject)

lemma is_digit_not_special:
  assumes "is_digit c"
  shows "\<not> is_space c" "c \<noteq> CHR ''-''" "c \<noteq> CHR ''+''" "c \<noteq> CHR ''.''" "c \<noteq> CHR ''I''"
    "radix_of c = None"
  using assms by (auto simp: is_digit_def is_space_def radix_of_def)

lemma split_no_sep: "sep \<notin> set a \<Longrightarrow> split sep a = [a]"
  by (induction a) auto

lemma split_at_sep: "sep \<notin> set a \<Longrightarrow> split sep (a @ sep # b) = a # split sep b"
  by (induction a) auto

lemma trim_digits:
  assumes "s \<noteq> []" "list_all is_digit s"
  shows "trim s = s"
proof -
  from assms have "\<not> is_space (hd s)" "\<not> is_space (last s)"
    by (auto simp: list_all_iff is_digit_not_special)
  with assms(1) have "dropWhile is_space s = s" "dropWhile is_space (rev s) = rev s"
    by (simp_all add: dropWhile_eq_self_iff hd_rev)
  then show ?thesis by (simp add: trim_def)
qed

lemma StringToNumber_digits:
  assumes ne: "s \<noteq> []" and dig: "list_all is_digit s" and v: "digits_value 10 s 0 = Some n"
  shows "StringToNumber s = Fin (real n)"
proof -
  from ne dig have hd: "is_digit (hd s)" by (cases s) simp_all
  have nd: "parse_non_decimal s = None"
  proof (cases s)
    case Nil
    then show ?thesis by (simp add: parse_non_decimal_def)
  next
    case (Cons z t)
    with dig show ?thesis
      by (cases t) (simp_all add: parse_non_decimal_def is_digit_not_special)
  qed
  from hd have "s \<noteq> ''Infinity''" by (auto simp: is_digit_def)
  moreover from dig have tw: "takeWhile is_digit s = s" "dropWhile is_digit s = []"
    by (simp_all add: list_all_iff)
  ultimately have "parse_unsigned_decimal s = Fin (real n)"
    using ne v by (simp add: parse_unsigned_decimal_def parse_exponent_def scale10_def tw)
  with hd ne have "parse_decimal s = Fin (real n)"
    by (simp add: parse_decimal_def is_digit_not_special)
  with nd ne show ?thesis
    by (simp add: StringToNumber_def trim_digits [OF ne dig])
qed

lemma Number_toString: "StringToNumber (toString n) = Fin (real n)"
  by (rule StringToNumber_digits [OF toString_nonempty toString_digits toString_value])

lemma toString_no_dash: "CHR ''-'' \<notin> set (toString n)"
  using toString_digits [of n] is_digit_not_special(2) by (auto simp: list_all_iff)

lemma split_id: "split CHR ''-'' (toString r @ CHR ''-'' # toString c) = [toString r, toString c]"
  using split_at_sep [OF toString_no_dash, of r "toString c"] split_no_sep [OF toString_no_dash, of c]
  by simp

lemma default_id_inj:
  assumes "toString r @ CHR ''-'' # toString c = toString r' @ CHR ''-'' # toString c'"
  shows "r = r' \<and> c = c'"
proof -
  from assms have "split CHR ''-'' (toString r @ CHR ''-'' # toString c)
      = split CHR ''-'' (toString r' @ CHR ''-'' # toString c')" by simp
  then show ?thesis by (simp add: split_id toString_inj)
qed

section \<open>The default mesh\<close>

lemma buildDefaultMesh_inner_eq:
  "buildDefaultMesh_inner rows cols r c points
     = points @ map (defaultPoint rows cols r) [c..<cols]"
proof (induction rows cols r c points rule: buildDefaultMesh_inner.induct)
  case (1 rows cols r c points)
  show ?case
  proof (cases "c < cols")
    case True
    with 1 show ?thesis
      by (subst buildDefaultMesh_inner.simps) (simp add: upt_conv_Cons)
  next
    case False
    then show ?thesis by (subst buildDefaultMesh_inner.simps) simp
  qed
qed

lemma buildDefaultMesh_outer_eq:
  "buildDefaultMesh_outer rows cols r points
     = points @ concat (map (\<lambda>r. map (defaultPoint rows cols r) [0..<cols]) [r..<rows])"
proof (induction rows cols r points rule: buildDefaultMesh_outer.induct)
  case (1 rows cols r points)
  show ?case
  proof (cases "r < rows")
    case True
    with 1 show ?thesis
      by (subst buildDefaultMesh_outer.simps)
         (simp add: upt_conv_Cons buildDefaultMesh_inner_eq)
  next
    case False
    then show ?thesis by (subst buildDefaultMesh_outer.simps) simp
  qed
qed

lemma concat_map_product:
  "concat (map (\<lambda>r. map (f r) ys) xs) = map (\<lambda>(r, c). f r c) (List.product xs ys)"
  by (induction xs) (simp_all add: comp_def)

lemma buildDefaultMesh_product:
  "buildDefaultMesh rows cols
     = map (\<lambda>(r, c). defaultPoint rows cols r c) (List.product [0..<rows] [0..<cols])"
  by (simp add: buildDefaultMesh_def buildDefaultMesh_outer_eq concat_map_product)

lemma buildDefaultMesh_length: "length (buildDefaultMesh rows cols) = rows * cols"
  by (simp add: buildDefaultMesh_product)

lemma buildDefaultMesh_set:
  "set (buildDefaultMesh rows cols)
     = (\<lambda>(r, c). defaultPoint rows cols r c) ` ({0..<rows} \<times> {0..<cols})"
  by (simp add: buildDefaultMesh_product)

lemma grid_index_bound:
  fixes r c rows cols :: nat
  assumes "r < rows" "c < cols"
  shows "r * cols + c < rows * cols"
proof -
  from assms(2) have "r * cols + c < (r + 1) * cols" by simp
  also from assms(1) have "\<dots> \<le> rows * cols" by (intro mult_le_mono1) simp
  finally show ?thesis .
qed

lemma buildDefaultMesh_nth:
  assumes "r < rows" "c < cols"
  shows "buildDefaultMesh rows cols ! (r * cols + c) = defaultPoint rows cols r c"
proof -
  from assms(2) have "r * cols + c < (r + 1) * cols" by simp
  also from assms(1) have "\<dots> \<le> rows * cols" by (intro mult_le_mono1) simp
  finally have "r * cols + c < rows * cols" .
  with assms show ?thesis
    by (simp add: buildDefaultMesh_product product_nth)
qed

lemma defaultPoint_Fin:
  assumes "2 \<le> rows" "2 \<le> cols"
  shows "defaultPoint rows cols r c =
     \<lparr>p_id = toString r @ ''-'' @ toString c,
      p_x = Fin (real c / (real cols - 1)), p_y = Fin (real r / (real rows - 1))\<rparr>"
  using assms by (simp add: defaultPoint_def js_sub_def)

lemma buildDefaultMesh_ids_distinct: "distinct (map p_id (buildDefaultMesh rows cols))"
proof -
  have "map p_id (buildDefaultMesh rows cols)
      = map (\<lambda>(r, c). toString r @ CHR ''-'' # toString c) (List.product [0..<rows] [0..<cols])"
    by (simp add: buildDefaultMesh_product defaultPoint_def comp_def case_prod_unfold)
  moreover have "inj_on (\<lambda>(r, c). toString r @ CHR ''-'' # toString c)
      (set (List.product [0..<rows] [0..<cols]))"
    by (rule inj_onI) (auto dest: default_id_inj)
  ultimately show ?thesis by (simp add: distinct_map distinct_product)
qed

lemma buildDefaultMesh_in_unit:
  assumes "2 \<le> rows" "2 \<le> cols"
  shows "list_all (\<lambda>p. in_unit (p_x p) \<and> in_unit (p_y p)) (buildDefaultMesh rows cols)"
proof -
  have "in_unit (p_x (defaultPoint rows cols r c)) \<and> in_unit (p_y (defaultPoint rows cols r c))"
    if "r < rows" "c < cols" for r c
  proof -
    from that assms have "real c \<le> real cols - 1" "real r \<le> real rows - 1"
      "0 < real cols - 1" "0 < real rows - 1" by simp_all
    then show ?thesis by (simp add: defaultPoint_Fin [OF assms])
  qed
  then show ?thesis by (auto simp: list_all_iff buildDefaultMesh_set)
qed

lemma buildDefaultMesh_2_2:
  "buildDefaultMesh 2 2 =
     [\<lparr>p_id = ''0-0'', p_x = Fin 0, p_y = Fin 0\<rparr>, \<lparr>p_id = ''0-1'', p_x = Fin 1, p_y = Fin 0\<rparr>,
      \<lparr>p_id = ''1-0'', p_x = Fin 0, p_y = Fin 1\<rparr>, \<lparr>p_id = ''1-1'', p_x = Fin 1, p_y = Fin 1\<rparr>]"
  by (simp add: buildDefaultMesh_product defaultPoint_def js_sub_def upt_rec toString_small
      digit_char_def)

lemma buildDefaultMesh_4_4:
  "buildDefaultMesh 4 4 =
     [\<lparr>p_id = ''0-0'', p_x = Fin 0, p_y = Fin 0\<rparr>, \<lparr>p_id = ''0-1'', p_x = Fin (1 / 3), p_y = Fin 0\<rparr>,
      \<lparr>p_id = ''0-2'', p_x = Fin (2 / 3), p_y = Fin 0\<rparr>, \<lparr>p_id = ''0-3'', p_x = Fin 1, p_y = Fin 0\<rparr>,
      \<lparr>p_id = ''1-0'', p_x = Fin 0, p_y = Fin (1 / 3)\<rparr>,
      \<lparr>p_id = ''1-1'', p_x = Fin (1 / 3), p_y = Fin (1 / 3)\<rparr>,
      \<lparr>p_id = ''1-2'', p_x = Fin (2 / 3), p_y = Fin (1 / 3)\<rparr>,
      \<lparr>p_id = ''1-3'', p_x = Fin 1, p_y = Fin (1 / 3)\<rparr>,
      \<lparr>p_id = ''2-0'', p_x = Fin 0, p_y = Fin (2 / 3)\<rparr>,
      \<lparr>p_id = ''2-1'', p_x = Fin (1 / 3), p_y = Fin (2 / 3)\<rparr>,
      \<lparr>p_id = ''2-2'', p_x = Fin (2 / 3), p_y = Fin (2 / 3)\<rparr>,
      \<lparr>p_id = ''2-3'', p_x = Fin 1, p_y = Fin (2 / 3)\<rparr>,
      \<lparr>p_id = ''3-0'', p_x = Fin 0, p_y = Fin 1\<rparr>, \<lparr>p_id = ''3-1'', p_x = Fin (1 / 3), p_y = Fin 1\<rparr>,
      \<lparr>p_id = ''3-2'', p_x = Fin (2 / 3), p_y = Fin 1\<rparr>, \<lparr>p_id = ''3-3'', p_x = Fin 1, p_y = Fin 1\<rparr>]"
  by (simp add: buildDefaultMesh_product defaultPoint_def js_sub_def upt_rec toString_small
      digit_char_def)

subsection \<open>Grid shape of the default mesh\<close>

lemma row_index_default: "row_index (defaultPoint rows cols r c) = Fin (real r)"
  by (simp add: row_index_def defaultPoint_def split_id js_index_def Number_toString)

lemma col_index_default: "col_index (defaultPoint rows cols r c) = Fin (real c)"
  by (simp add: col_index_def defaultPoint_def split_id js_index_def Number_toString)

lemma foldl_js_max2_Fin:
  "foldl js_max2 (Fin a) (map (\<lambda>x. Fin (f x)) xs) = Fin (Max (insert a (f ` set xs)))"
proof (induction xs arbitrary: a)
  case Nil
  then show ?case by simp
next
  case (Cons x xs)
  have step: "js_max2 (Fin a) (Fin (f x)) = Fin (max a (f x))" by (simp add: max_def)
  have "Max (insert (max a (f x)) (f ` set xs)) = Max (insert a (insert (f x) (f ` set xs)))"
    by (cases "set xs = {}") (simp_all add: max.assoc)
  with step show ?case by (simp add: Cons.IH)
qed

lemma Math_max_Fin:
  assumes "xs \<noteq> []"
  shows "Math_max (map (\<lambda>x. Fin (f x)) xs) = Fin (Max (f ` set xs))"
proof -
  from assms obtain y ys where xs: "xs = y # ys" by (cases xs) auto
  have "js_max2 NegInf (Fin (f y)) = Fin (f y)" by simp
  then show ?thesis
    unfolding xs Math_max_def by (simp add: foldl_js_max2_Fin)
qed

lemma Max_index:
  assumes "0 < n" "0 < m"
  shows "Max ((\<lambda>x. real (fst x)) ` set (List.product [0..<n] [0..<m])) = real (n - 1)"
    and "Max ((\<lambda>x. real (snd x)) ` set (List.product [0..<m] [0..<n])) = real (n - 1)"
proof -
  show "Max ((\<lambda>x. real (fst x)) ` set (List.product [0..<n] [0..<m])) = real (n - 1)"
  proof (rule Max_eqI)
    show "real (n - 1) \<in> (\<lambda>x. real (fst x)) ` set (List.product [0..<n] [0..<m])"
      using assms by (intro image_eqI [where x = "(n - 1, 0)"]) simp_all
  qed auto
  show "Max ((\<lambda>x. real (snd x)) ` set (List.product [0..<m] [0..<n])) = real (n - 1)"
  proof (rule Max_eqI)
    show "real (n - 1) \<in> (\<lambda>x. real (snd x)) ` set (List.product [0..<m] [0..<n])"
      using assms by (intro image_eqI [where x = "(0, n - 1)"]) simp_all
  qed auto
qed

lemma buildDefaultMesh_shape:
  assumes "0 < rows" "0 < cols"
  shows "mesh_rows (buildDefaultMesh rows cols) = Fin (real rows)"
    and "mesh_cols (buildDefaultMesh rows cols) = Fin (real cols)"
proof -
  have ne: "List.product [0..<rows] [0..<cols] \<noteq> []"
    using assms by (simp add: upt_conv_Cons)
  have r: "map row_index (buildDefaultMesh rows cols)
      = map (\<lambda>x. Fin (real (fst x))) (List.product [0..<rows] [0..<cols])"
    by (simp add: buildDefaultMesh_product row_index_default case_prod_unfold)
  have c: "map col_index (buildDefaultMesh rows cols)
      = map (\<lambda>x. Fin (real (snd x))) (List.product [0..<rows] [0..<cols])"
    by (simp add: buildDefaultMesh_product col_index_default case_prod_unfold)
  from assms have one: "real (rows - 1) + 1 = real rows" "real (cols - 1) + 1 = real cols"
    by simp_all
  show "mesh_rows (buildDefaultMesh rows cols) = Fin (real rows)"
    unfolding mesh_rows_def r Math_max_Fin [OF ne] Max_index(1) [OF assms]
    using assms one by (simp add: js_or_def)
  show "mesh_cols (buildDefaultMesh rows cols) = Fin (real cols)"
    unfolding mesh_cols_def c Math_max_Fin [OF ne] Max_index(2) [OF assms(2,1)]
    using assms one by (simp add: js_or_def)
qed

text \<open>
  Claim C1.  For all \<open>rows \<ge> 2\<close> and \<open>cols \<ge> 2\<close> the generator produces exactly
  \<open>rows * cols\<close> points with pairwise different ids; the point of row \<open>r\<close> and column
  \<open>c\<close> sits at index \<open>r * cols + c\<close>, has the id \<^verbatim>\<open>r-c\<close> and the coordinates
  \<open>x = c / (cols - 1)\<close> and \<open>y = r / (rows - 1)\<close>, both in \<open>[0, 1]\<close>; and the grid
  dimensions derived from the ids are exactly \<open>(rows, cols)\<close>.
\<close>

theorem buildDefaultMesh_grid:
  assumes "2 \<le> rows" "2 \<le> cols"
  shows "length (buildDefaultMesh rows cols) = rows * cols
       \<and> distinct (map p_id (buildDefaultMesh rows cols))
       \<and> list_all (\<lambda>p. in_unit (p_x p) \<and> in_unit (p_y p)) (buildDefaultMesh rows cols)
       \<and> (\<forall>r c. r < rows \<and> c < cols \<longrightarrow>
            buildDefaultMesh rows cols ! (r * cols + c) =
              \<lparr>p_id = toString r @ ''-'' @ toString c,
               p_x = Fin (real c / (real cols - 1)), p_y = Fin (real r / (real rows - 1))\<rparr>)
       \<and> gridShape (buildDefaultMesh rows cols) = Inr (Fin (real rows), Fin (real cols))"
proof -
  from assms have pos: "0 < rows" "0 < cols" by simp_all
  have "\<forall>r c. r < rows \<and> c < cols \<longrightarrow>
            buildDefaultMesh rows cols ! (r * cols + c) =
              \<lparr>p_id = toString r @ ''-'' @ toString c,
               p_x = Fin (real c / (real cols - 1)), p_y = Fin (real r / (real rows - 1))\<rparr>"
    using buildDefaultMesh_nth defaultPoint_Fin [OF assms] by simp
  moreover have "gridShape (buildDefaultMesh rows cols) = Inr (Fin (real rows), Fin (real cols))"
    by (simp add: gridShape_def buildDefaultMesh_shape [OF pos])
  ultimately show ?thesis
    using buildDefaultMesh_length buildDefaultMesh_ids_distinct buildDefaultMesh_in_unit [OF assms]
    by blast
qed

theorem buildDefaultMesh_grid_witness:
  "(2::nat) \<le> 4 \<and> length (buildDefaultMesh 4 4) = 16
   \<and> distinct (map p_id (buildDefaultMesh 4 4))
   \<and> list_all (\<lambda>p. in_unit (p_x p) \<and> in_unit (p_y p)) (buildDefaultMesh 4 4)
   \<and> buildDefaultMesh 4 4 ! 5 = \<lparr>p_id = ''1-1'', p_x = Fin (1 / 3), p_y = Fin (1 / 3)\<rparr>
   \<and> gridShape (buildDefaultMesh 4 4) = Inr (Fin 4, Fin 4)"
proof -
  have h: "(2::nat) \<le> 4" by simp
  note g = buildDefaultMesh_grid [OF h h]
  from g [THEN conjunct2, THEN conjunct2, THEN conjunct2, THEN conjunct1, rule_format, of 1 1]
  have "buildDefaultMesh 4 4 ! 5 = \<lparr>p_id = ''1-1'', p_x = Fin (1 / 3), p_y = Fin (1 / 3)\<rparr>"
    by (simp add: toString_small digit_char_def)
  with g h show ?thesis by simp
qed

subsection \<open>Dimensions below two\<close>

text \<open>
  Claim C10 as stated (generation fails with \<open>InvalidDimension\<close> when \<open>rows < 2\<close> or
  \<open>cols < 2\<close>) does not hold of the code: with one row and two columns the generator
  returns two points whose \<open>y\<close> is \<^verbatim>\<open>NaN\<close>, with one column the \<open>x\<close> is \<^verbatim>\<open>NaN\<close>, and
  with no rows it returns the empty mesh.
\<close>

theorem generate_small_counterexample:
  "generate 1 2 = Inr [\<lparr>p_id = ''0-0'', p_x = Fin 0, p_y = NaN\<rparr>,
                       \<lparr>p_id = ''0-1'', p_x = Fin 1, p_y = NaN\<rparr>]
   \<and> generate 1 2 \<noteq> Inl InvalidDimension
   \<and> generate 2 1 = Inr [\<lparr>p_id = ''0-0'', p_x = NaN, p_y = Fin 0\<rparr>,
                         \<lparr>p_id = ''1-0'', p_x = NaN, p_y = Fin 1\<rparr>]
   \<and> generate 0 5 = Inr []"
  by (simp add: generate_def buildDefaultMesh_product defaultPoint_def js_sub_def upt_rec
      toString_small digit_char_def)

text \<open>
  Claim C10, amended.  For \<open>rows < 2\<close> or \<open>cols < 2\<close> generation does not fail: it returns
  \<open>rows * cols\<close> points (none when a dimension is zero), each with a \<^verbatim>\<open>NaN\<close>
  coordinate: every \<open>y\<close> is \<^verbatim>\<open>NaN\<close> when \<open>rows = 1\<close>, every \<open>x\<close> when \<open>cols = 1\<close>.
\<close>

theorem generate_small_dimension:
  assumes "rows < 2 \<or> cols < 2"
  shows "generate rows cols = Inr (buildDefaultMesh rows cols)
       \<and> length (buildDefaultMesh rows cols) = rows * cols
       \<and> list_all (\<lambda>p. p_x p = NaN \<or> p_y p = NaN) (buildDefaultMesh rows cols)
       \<and> (rows = 1 \<longrightarrow> list_all (\<lambda>p. p_y p = NaN) (buildDefaultMesh rows cols))
       \<and> (cols = 1 \<longrightarrow> list_all (\<lambda>p. p_x p = NaN) (buildDefaultMesh rows cols))"
proof -
  have y: "p_y (defaultPoint 1 cols r c) = NaN" if "r < 1" for r c cols
    using that by (simp add: defaultPoint_def js_sub_def)
  have x: "p_x (defaultPoint rows 1 r c) = NaN" if "c < 1" for r c rows
    using that by (simp add: defaultPoint_def js_sub_def)
  have "list_all (\<lambda>p. p_y p = NaN) (buildDefaultMesh 1 cols)" for cols
    using y by (auto simp: list_all_iff buildDefaultMesh_set)
  moreover have "list_all (\<lambda>p. p_x p = NaN) (buildDefaultMesh rows 1)" for rows
    using x by (auto simp: list_all_iff buildDefaultMesh_set)
  moreover have "list_all (\<lambda>p. p_x p = NaN \<or> p_y p = NaN) (buildDefaultMesh rows cols)"
  proof -
    have "p_x (defaultPoint rows cols r c) = NaN \<or> p_y (defaultPoint rows cols r c) = NaN"
      if "r < rows" "c < cols" for r c
    proof -
      from assms that have "rows = 1 \<or> cols = 1" by arith
      with that x y show ?thesis by auto
    qed
    then show ?thesis by (auto simp: list_all_iff buildDefaultMesh_set)
  qed
  ultimately show ?thesis
    by (simp add: generate_def buildDefaultMesh_length)
qed

theorem generate_small_dimension_witness:
  "((1::nat) < 2 \<or> (2::nat) < 2)
   \<and> generate 1 2 = Inr (buildDefaultMesh 1 2)
   \<and> length (buildDefaultMesh 1 2) = 2
   \<and> list_all (\<lambda>p. p_y p = NaN) (buildDefaultMesh 1 2)
   \<and> ((2::nat) < 2 \<or> (1::nat) < 2)
   \<and> generate 2 1 = Inr (buildDefaultMesh 2 1)
   \<and> length (buildDefaultMesh 2 1) = 2
   \<and> list_all (\<lambda>p. p_x p = NaN) (buildDefaultMesh 2 1)"
proof -
  have h: "(1::nat) < 2 \<or> (2::nat) < 2" and h': "(2::nat) < 2 \<or> (1::nat) < 2" by simp_all
  from generate_small_dimension [OF h] generate_small_dimension [OF h'] h h'
  show ?thesis by simp
qed

subsection \<open>Grid shape of an arbitrary mesh\<close>

lemma foldl_js_max2_NaN: "foldl js_max2 NaN xs = NaN"
  by (induction xs) simp_all

lemma Math_max_NaN:
  assumes "NaN \<in> set xs"
  shows "Math_max xs = NaN"
proof -
  have "foldl js_max2 a xs = NaN" for a
    using assms
  proof (induction xs arbitrary: a)
    case Nil
    then show ?case by simp
  next
    case (Cons x xs)
    show ?case
    proof (cases "x = NaN")
      case True
      have "js_max2 a NaN = NaN" by (cases a) simp_all
      with True show ?thesis by (simp add: foldl_js_max2_NaN)
    next
      case False
      with Cons show ?thesis by simp
    qed
  qed
  then show ?thesis by (simp add: Math_max_def)
qed

lemma Math_max_finite:
  assumes "mesh \<noteq> []" "list_all (\<lambda>p. is_Fin (f p)) mesh"
  shows "Math_max (map f mesh) = Fin (Max ((\<lambda>p. fin_val (f p)) ` set mesh))"
proof -
  have "f p = Fin (fin_val (f p))" if "p \<in> set mesh" for p
    using that assms(2) by (cases "f p") (auto simp: list_all_iff)
  then have eq: "map f mesh = map (\<lambda>p. Fin (fin_val (f p))) mesh"
    by (intro map_cong) simp_all
  show ?thesis unfolding eq by (rule Math_max_Fin [OF assms(1)])
qed

text \<open>
  Claim C9 as stated (deriving the grid shape fails with \<open>MalformedMesh\<close> when the ids are
  not pairs of integers or the indices have gaps) does not hold of the code: for the id
  \<^verbatim>\<open>a-b\<close> the row index is \<^verbatim>\<open>NaN\<close> and the derived shape is \<open>(1, 1)\<close>; for the two ids
  \<^verbatim>\<open>0-0\<close> and \<^verbatim>\<open>5-3\<close> it is \<open>(6, 4)\<close>.
\<close>

theorem gridShape_malformed_counterexample:
  "row_index \<lparr>p_id = ''a-b'', p_x = Fin 0, p_y = Fin 0\<rparr> = NaN
   \<and> gridShape [\<lparr>p_id = ''a-b'', p_x = Fin 0, p_y = Fin 0\<rparr>] = Inr (Fin 1, Fin 1)
   \<and> gridShape [\<lparr>p_id = ''a-b'', p_x = Fin 0, p_y = Fin 0\<rparr>] \<noteq> Inl MalformedMesh
   \<and> gridShape [\<lparr>p_id = ''0-0'', p_x = Fin 0, p_y = Fin 0\<rparr>,
                 \<lparr>p_id = ''5-3'', p_x = Fin 1, p_y = Fin 1\<rparr>] = Inr (Fin 6, Fin 4)"
  by (simp add: gridShape_def mesh_rows_def mesh_cols_def Math_max_def js_or_def
      row_index_def col_index_def js_index_def StringToNumber_def trim_def is_space_def
      parse_non_decimal_def parse_decimal_def parse_unsigned_decimal_def is_digit_def
      digit_in_def parse_exponent_def scale10_def)

text \<open>
  Claim C9, amended.  Deriving the grid shape never fails.  When the row part of some id
  does not read as a number the derived number of rows is \<open>1\<close>; when all row parts of a
  non-empty mesh read as finite numbers it is the largest of them plus one, gaps or not
  (and \<open>1\<close> if that sum is zero).  Likewise for the columns.
\<close>

theorem gridShape_defaults:
  "gridShape mesh = Inr (mesh_rows mesh, mesh_cols mesh)
   \<and> ((\<exists>p\<in>set mesh. row_index p = NaN) \<longrightarrow> mesh_rows mesh = Fin 1)
   \<and> ((\<exists>p\<in>set mesh. col_index p = NaN) \<longrightarrow> mesh_cols mesh = Fin 1)
   \<and> (mesh \<noteq> [] \<and> list_all (\<lambda>p. is_Fin (row_index p)) mesh \<longrightarrow>
        mesh_rows mesh = js_or (Fin (Max ((\<lambda>p. fin_val (row_index p)) ` set mesh) + 1)) (Fin 1))
   \<and> (mesh \<noteq> [] \<and> list_all (\<lambda>p. is_Fin (col_index p)) mesh \<longrightarrow>
        mesh_cols mesh = js_or (Fin (Max ((\<lambda>p. fin_val (col_index p)) ` set mesh) + 1)) (Fin 1))"
proof -
  have "mesh_rows mesh = Fin 1" if "\<exists>p\<in>set mesh. row_index p = NaN"
  proof -
    from that have "NaN \<in> set (map row_index mesh)" by (auto simp: image_iff) metis
    then show ?thesis by (simp add: mesh_rows_def Math_max_NaN js_or_def)
  qed
  moreover have "mesh_cols mesh = Fin 1" if "\<exists>p\<in>set mesh. col_index p = NaN"
  proof -
    from that have "NaN \<in> set (map col_index mesh)" by (auto simp: image_iff) metis
    then show ?thesis by (simp add: mesh_cols_def Math_max_NaN js_or_def)
  qed
  moreover have "mesh_rows mesh
      = js_or (Fin (Max ((\<lambda>p. fin_val (row_index p)) ` set mesh) + 1)) (Fin 1)"
    if "mesh \<noteq> [] \<and> list_all (\<lambda>p. is_Fin (row_index p)) mesh"
    using that Math_max_finite [of mesh row_index] by (simp add: mesh_rows_def)
  moreover have "mesh_cols mesh
      = js_or (Fin (Max ((\<lambda>p. fin_val (col_index p)) ` set mesh) + 1)) (Fin 1)"
    if "mesh \<noteq> [] \<and> list_all (\<lambda>p. is_Fin (col_index p)) mesh"
    using that Math_max_finite [of mesh col_index] by (simp add: mesh_cols_def)
  ultimately show ?thesis by (simp add: gridShape_def)
qed

theorem gridShape_defaults_witness:
  "row_index \<lparr>p_id = ''a-b'', p_x = Fin 0, p_y = Fin 0\<rparr> = NaN
   \<and> col_index \<lparr>p_id = ''a-b'', p_x = Fin 0, p_y = Fin 0\<rparr> = NaN
   \<and> mesh_rows [\<lparr>p_id = ''0-0'', p_x = Fin 0, p_y = Fin 0\<rparr>,
                 \<lparr>p_id = ''a-b'', p_x = Fin 0, p_y = Fin 0\<rparr>] = Fin 1
   \<and> mesh_cols [\<lparr>p_id = ''0-0'', p_x = Fin 0, p_y = Fin 0\<rparr>,
                 \<lparr>p_id = ''a-b'', p_x = Fin 0, p_y = Fin 0\<rparr>] = Fin 1
   \<and> list_all (\<lambda>p. is_Fin (row_index p))
        [\<lparr>p_id = ''0-0'', p_x = Fin 0, p_y = Fin 0\<rparr>, \<lparr>p_id = ''5-3'', p_x = Fin 1, p_y = Fin 1\<rparr>]
   \<and> list_all (\<lambda>p. is_Fin (col_index p))
        [\<lparr>p_id = ''0-0'', p_x = Fin 0, p_y = Fin 0\<rparr>, \<lparr>p_id = ''5-3'', p_x = Fin 1, p_y = Fin 1\<rparr>]
   \<and> mesh_rows [\<lparr>p_id = ''0-0'', p_x = Fin 0, p_y = Fin 0\<rparr>,
                 \<lparr>p_id = ''5-3'', p_x = Fin 1, p_y = Fin 1\<rparr>] = Fin 6
   \<and> mesh_cols [\<lparr>p_id = ''0-0'', p_x = Fin 0, p_y = Fin 0\<rparr>,
                 \<lparr>p_id = ''5-3'', p_x = Fin 1, p_y = Fin 1\<rparr>] = Fin 4"
proof -
  let ?bad = "\<lparr>p_id = ''a-b'', p_x = Fin 0, p_y = Fin 0\<rparr>"
  let ?p = "\<lparr>p_id = ''0-0'', p_x = Fin 0, p_y = Fin 0\<rparr>"
  let ?q = "\<lparr>p_id = ''5-3'', p_x = Fin 1, p_y = Fin 1\<rparr>"
  have nan: "row_index ?bad = NaN" "col_index ?bad = NaN"
    by (simp_all add: row_index_def col_index_def js_index_def StringToNumber_def trim_def
        is_space_def parse_non_decimal_def parse_decimal_def parse_unsigned_decimal_def
        is_digit_def)
  have idx: "row_index ?p = Fin 0" "col_index ?p = Fin 0" "row_index ?q = Fin 5"
    "col_index ?q = Fin 3"
    by (simp_all add: row_index_def col_index_def js_index_def StringToNumber_def trim_def
        is_space_def parse_non_decimal_def parse_decimal_def parse_unsigned_decimal_def
        is_digit_def digit_in_def parse_exponent_def scale10_def)
  have fin: "list_all (\<lambda>p. is_Fin (row_index p)) [?p, ?q]"
    "list_all (\<lambda>p. is_Fin (col_index p)) [?p, ?q]"
    by (simp_all add: idx)
  from nan have ex: "\<exists>p\<in>set [?p, ?bad]. row_index p = NaN" "\<exists>p\<in>set [?p, ?bad]. col_index p = NaN"
    by simp_all
  note bad = gridShape_defaults [of "[?p, ?bad]"]
  note good = gridShape_defaults [of "[?p, ?q]"]
  from bad ex have r1: "mesh_rows [?p, ?bad] = Fin 1" and c1: "mesh_cols [?p, ?bad] = Fin 1"
    by blast+
  from good fin have "mesh_rows [?p, ?q]
      = js_or (Fin (Max ((\<lambda>p. fin_val (row_index p)) ` set [?p, ?q]) + 1)) (Fin 1)"
    and "mesh_cols [?p, ?q]
      = js_or (Fin (Max ((\<lambda>p. fin_val (col_index p)) ` set [?p, ?q]) + 1)) (Fin 1)"
    by blast+
  then have r2: "mesh_rows [?p, ?q] = Fin 6" and c2: "mesh_cols [?p, ?q] = Fin 4"
    by (simp_all add: idx js_or_def)
  show ?thesis by (intro conjI nan r1 c1 fin r2 c2)
qed

section \<open>Mesh history\<close>

lemma stringify_num_inj: "is_Fin a \<Longrightarrow> is_Fin b \<Longrightarrow> stringify_num a = stringify_num b \<Longrightarrow> a = b"
  by (cases a; cases b) simp_all

lemma stringify_point_inj:
  "finite_point p \<Longrightarrow> finite_point q \<Longrightarrow> stringify_point p = stringify_point q \<Longrightarrow> p = q"
  by (cases p; cases q) (auto simp: finite_point_def stringify_point_def dest: stringify_num_inj)

lemma JSON_stringify_inj:
  "finite_mesh a \<Longrightarrow> finite_mesh b \<Longrightarrow> JSON_stringify a = JSON_stringify b \<Longrightarrow> a = b"
proof (induction a arbitrary: b)
  case Nil
  then show ?case by (simp add: JSON_stringify_def)
next
  case (Cons p a)
  then obtain q b' where b: "b = q # b'" by (cases b) (auto simp: JSON_stringify_def)
  with Cons.prems have "p = q"
    by (auto simp: JSON_stringify_def finite_mesh_def intro: stringify_point_inj)
  moreover from Cons.prems b have "a = b'"
    by (intro Cons.IH) (auto simp: JSON_stringify_def finite_mesh_def)
  ultimately show ?case using b by simp
qed

lemma finite_distinct_adj:
  assumes "distinct_adj ms" "\<forall>m\<in>set ms. finite_mesh m"
  shows "distinct_adj (map JSON_stringify ms)"
proof (rule distinct_adj_mapI [OF assms(1)])
  show "inj_on JSON_stringify (set ms)"
    using assms(2) by (auto intro!: inj_onI JSON_stringify_inj)
qed

lemma distinct_imp_adj: "distinct xs \<Longrightarrow> distinct_adj xs"
  by (induction xs rule: induct_list012) auto

text \<open>
  Claim C5.  Recording a mesh structurally equal to the snapshot at the cursor changes
  nothing: the snapshot sequence, its length, the cursor and the displayed mesh stay as
  they are.
\<close>

theorem setMesh_same_noop:
  assumes "js_index (historyRef h) (indexRef h) = Some newMesh"
  shows "setMesh bound newMesh h = h"
  using assms by (simp add: setMesh_def)

theorem setMesh_same_noop_witness:
  "js_index (historyRef (useMeshHistory [\<lparr>p_id = ''0-0'', p_x = Fin 0, p_y = Fin 0\<rparr>]))
            (indexRef (useMeshHistory [\<lparr>p_id = ''0-0'', p_x = Fin 0, p_y = Fin 0\<rparr>]))
     = Some [\<lparr>p_id = ''0-0'', p_x = Fin 0, p_y = Fin 0\<rparr>]
   \<and> setMesh MAX_HISTORY [\<lparr>p_id = ''0-0'', p_x = Fin 0, p_y = Fin 0\<rparr>]
        (useMeshHistory [\<lparr>p_id = ''0-0'', p_x = Fin 0, p_y = Fin 0\<rparr>])
     = useMeshHistory [\<lparr>p_id = ''0-0'', p_x = Fin 0, p_y = Fin 0\<rparr>]"
proof -
  have idx: "js_index (historyRef (useMeshHistory [\<lparr>p_id = ''0-0'', p_x = Fin 0, p_y = Fin 0\<rparr>]))
            (indexRef (useMeshHistory [\<lparr>p_id = ''0-0'', p_x = Fin 0, p_y = Fin 0\<rparr>]))
     = Some [\<lparr>p_id = ''0-0'', p_x = Fin 0, p_y = Fin 0\<rparr>]"
    by (simp add: useMeshHistory_def js_index_def)
  from setMesh_same_noop [OF idx] idx show ?thesis by simp
qed

subsection \<open>Recording at the newest snapshot\<close>

lemma setMesh_tip:
  assumes "at_tip h" "JSON_stringify (last (historyRef h)) \<noteq> JSON_stringify x" "1 \<le> N"
    and len: "length (historyRef h) \<le> N"
  shows "historyRef (setMesh N x h) = drop (length (historyRef h) + 1 - N) (historyRef h @ [x])"
    and "at_tip (setMesh N x h)" and "meshState (setMesh N x h) = Some x"
proof -
  let ?H = "historyRef h"
  from assms(1) have ne: "?H \<noteq> []" and idx: "indexRef h = length ?H - 1"
    by (simp_all add: at_tip_def)
  from ne idx have cur: "js_index ?H (indexRef h) = Some (last ?H)"
    by (simp add: js_index_def last_conv_nth)
  from ne idx have tk: "take (indexRef h + 1) ?H = ?H" by simp
  show "historyRef (setMesh N x h) = drop (length ?H + 1 - N) (?H @ [x])"
  proof (cases "length ?H + 1 > N")
    case True
    with len have "length ?H = N" by simp
    with True ne assms(2,3) cur tk show ?thesis
      by (cases "historyRef h") (simp_all add: setMesh_def Let_def)
  next
    case False
    with assms(2) cur tk show ?thesis by (simp add: setMesh_def Let_def)
  qed
  show "at_tip (setMesh N x h)"
    using ne idx assms(2,3) cur tk
    by (auto simp: setMesh_def Let_def at_tip_def)
  show "meshState (setMesh N x h) = Some x"
    using assms(2) cur tk by (simp add: setMesh_def Let_def)
qed

lemma setMesh_tip_length:
  assumes "at_tip h" "JSON_stringify (last (historyRef h)) \<noteq> JSON_stringify x" "1 \<le> N"
    and len: "length (historyRef h) \<le> N"
  shows "length (historyRef (setMesh N x h)) \<le> N" and "last (historyRef (setMesh N x h)) = x"
  using setMesh_tip(1) [OF assms] assms(1,3) len by (auto simp: at_tip_def)

lemma record_all_Cons: "record_all N (x # xs) h = record_all N xs (setMesh N x h)"
  by (simp add: record_all_def)

lemma record_all_tip:
  assumes "at_tip h" "length (historyRef h) \<le> N" "1 \<le> N"
    and "distinct_adj (map JSON_stringify (last (historyRef h) # xs))"
  shows "historyRef (record_all N xs h)
           = drop (length (historyRef h) + length xs - N) (historyRef h @ xs)
         \<and> at_tip (record_all N xs h)"
  using assms
proof (induction xs arbitrary: h)
  case Nil
  then show ?case by (simp add: record_all_def)
next
  case (Cons x xs)
  let ?H = "historyRef h" and ?h' = "setMesh N x h"
  from Cons.prems(4) have ne: "JSON_stringify (last ?H) \<noteq> JSON_stringify x"
    and adj: "distinct_adj (map JSON_stringify (x # xs))" by simp_all
  note step = setMesh_tip [OF Cons.prems(1) ne Cons.prems(3,2)]
    setMesh_tip_length [OF Cons.prems(1) ne Cons.prems(3,2)]
  from step(5) adj have adj': "distinct_adj (map JSON_stringify (last (historyRef ?h') # xs))"
    by simp
  have IH: "historyRef (record_all N xs ?h')
           = drop (length (historyRef ?h') + length xs - N) (historyRef ?h' @ xs)
         \<and> at_tip (record_all N xs ?h')"
    by (rule Cons.IH [OF step(2) step(4) Cons.prems(3) adj'])
  have Hne: "?H \<noteq> []" using Cons.prems(1) by (simp add: at_tip_def)
  have "drop (length (historyRef ?h') + length xs - N) (historyRef ?h' @ xs)
      = drop (length ?H + length (x # xs) - N) (?H @ x # xs)"
  proof (cases "length ?H + 1 \<le> N")
    case True
    with step(1) show ?thesis by simp
  next
    case False
    with Cons.prems(2) have eq: "length ?H = N" by simp
    with step(1) Hne have H': "historyRef ?h' = tl ?H @ [x]" by (cases ?H) simp_all
    from Hne eq show ?thesis unfolding H' by (cases ?H) simp_all
  qed
  with IH show ?case by (simp add: record_all_Cons)
qed

lemma record_all_seed:
  assumes N: "1 \<le> N" and k: "N \<le> length xs" and d: "distinct xs"
    and f0: "finite_mesh s0" and f: "\<forall>m\<in>set xs. finite_mesh m"
  shows "historyRef (record_all N xs (useMeshHistory s0)) = drop (length xs - N) xs
       \<and> indexRef (record_all N xs (useMeshHistory s0)) = N - 1"
proof -
  let ?h0 = "useMeshHistory s0"
  from N k obtain x xs' where xs: "xs = x # xs'" by (cases xs) auto
  have tip0: "at_tip ?h0" "length (historyRef ?h0) \<le> N" "last (historyRef ?h0) = s0"
    using N by (simp_all add: at_tip_def useMeshHistory_def)
  have adj: "distinct_adj xs" by (rule distinct_imp_adj [OF d])
  have res: "historyRef (record_all N xs ?h0) = drop (length xs - N) xs
       \<and> at_tip (record_all N xs ?h0)"
  proof (cases "x = s0")
    case True
    then have noop: "setMesh N x ?h0 = ?h0"
      by (simp add: setMesh_def useMeshHistory_def js_index_def)
    from adj f True xs have "distinct_adj (map JSON_stringify (last (historyRef ?h0) # xs'))"
      using finite_distinct_adj [of xs] tip0(3) by simp
    from record_all_tip [OF tip0(1,2) N this] True xs noop k show ?thesis
      by (simp add: record_all_Cons useMeshHistory_def)
  next
    case False
    with adj xs have "distinct_adj (s0 # xs)" by simp
    with f f0 have "distinct_adj (map JSON_stringify (s0 # xs))"
      by (intro finite_distinct_adj) auto
    with tip0(3) have "distinct_adj (map JSON_stringify (last (historyRef ?h0) # xs))" by simp
    from record_all_tip [OF tip0(1,2) N this] k N show ?thesis
      by (simp add: useMeshHistory_def Suc_diff_le)
  qed
  moreover from res k N have "indexRef (record_all N xs ?h0) = N - 1"
    by (simp add: at_tip_def)
  ultimately show ?thesis by simp
qed

text \<open>
  Claim C3.  A history bounded at \<open>N \<ge> 1\<close> is seeded with one mesh and \<open>N + 5\<close> pairwise
  different meshes are recorded, all with finite coordinates.  Then the history has
  exactly \<open>N\<close> snapshots, the oldest one is the sixth mesh recorded, and the cursor is
  \<open>N - 1\<close>; from the \<open>N\<close>-th record on the length stays \<open>N\<close> and the cursor stays at
  \<open>N - 1\<close> after every record.
\<close>

theorem history_bound:
  assumes "1 \<le> N" "length xs = N + 5" "distinct xs" "finite_mesh s0" "list_all finite_mesh xs"
  shows "historyLength (record_all N xs (useMeshHistory s0)) = N
       \<and> js_index (historyRef (record_all N xs (useMeshHistory s0))) 0 = Some (xs ! 5)
       \<and> indexRef (record_all N xs (useMeshHistory s0)) = N - 1
       \<and> (\<forall>k. N \<le> k \<and> k \<le> N + 5 \<longrightarrow>
            historyLength (record_all N (take k xs) (useMeshHistory s0)) = N
          \<and> indexRef (record_all N (take k xs) (useMeshHistory s0)) = N - 1)"
proof -
  from assms(5) have fin: "\<forall>m\<in>set xs. finite_mesh m" by (simp add: list_all_iff)
  have pre: "historyRef (record_all N (take k xs) (useMeshHistory s0))
               = drop (k - N) (take k xs)
           \<and> indexRef (record_all N (take k xs) (useMeshHistory s0)) = N - 1"
    if "N \<le> k" "k \<le> N + 5" for k
  proof -
    from that assms(2) have "N \<le> length (take k xs)" by simp
    moreover from assms(3) have "distinct (take k xs)" by simp
    moreover from fin have "\<forall>m\<in>set (take k xs). finite_mesh m" by (auto dest: in_set_takeD)
    ultimately show ?thesis
      using record_all_seed [OF assms(1) _ _ assms(4), of "take k xs"] that assms(2) by simp
  qed
  from pre [of "N + 5"] assms(2)
  have full: "historyRef (record_all N xs (useMeshHistory s0)) = drop 5 xs"
    "indexRef (record_all N xs (useMeshHistory s0)) = N - 1" by simp_all
  from full(1) assms(1,2)
  have "js_index (historyRef (record_all N xs (useMeshHistory s0))) 0 = Some (xs ! 5)"
    by (simp add: js_index_def)
  moreover from full(1) assms(2)
  have "historyLength (record_all N xs (useMeshHistory s0)) = N"
    by (simp add: historyLength_def)
  moreover have "\<forall>k. N \<le> k \<and> k \<le> N + 5 \<longrightarrow>
            historyLength (record_all N (take k xs) (useMeshHistory s0)) = N
          \<and> indexRef (record_all N (take k xs) (useMeshHistory s0)) = N - 1"
    using pre assms(2) by (auto simp: historyLength_def)
  ultimately show ?thesis using full(2) by blast
qed

theorem history_bound_witness:
  "(1::nat) \<le> 2
   \<and> length (map sample_mesh [1, 2, 3, 4, 5, 6, 7]) = 2 + 5
   \<and> distinct (map sample_mesh [1, 2, 3, 4, 5, 6, 7])
   \<and> finite_mesh (sample_mesh 0)
   \<and> list_all finite_mesh (map sample_mesh [1, 2, 3, 4, 5, 6, 7])
   \<and> historyLength (record_all 2 (map sample_mesh [1, 2, 3, 4, 5, 6, 7])
                       (useMeshHistory (sample_mesh 0))) = 2
   \<and> js_index (historyRef (record_all 2 (map sample_mesh [1, 2, 3, 4, 5, 6, 7])
                               (useMeshHistory (sample_mesh 0)))) 0 = Some (sample_mesh 6)
   \<and> indexRef (record_all 2 (map sample_mesh [1, 2, 3, 4, 5, 6, 7])
                  (useMeshHistory (sample_mesh 0))) = 1
   \<and> historyLength (record_all 2 (map sample_mesh [1, 2, 3]) (useMeshHistory (sample_mesh 0))) = 2
   \<and> indexRef (record_all 2 (map sample_mesh [1, 2, 3]) (useMeshHistory (sample_mesh 0))) = 1"
proof -
  let ?xs = "map sample_mesh [1, 2, 3, 4, 5, 6, 7]"
  have h: "(1::nat) \<le> 2" "length ?xs = 2 + 5" "distinct ?xs" "finite_mesh (sample_mesh 0)"
    "list_all finite_mesh ?xs"
    by (simp_all add: sample_mesh_def finite_mesh_def finite_point_def)
  note b = history_bound [OF h]
  from b have "(2::nat) \<le> 3 \<and> (3::nat) \<le> 2 + 5 \<longrightarrow>
      historyLength (record_all 2 (take 3 ?xs) (useMeshHistory (sample_mesh 0))) = 2
      \<and> indexRef (record_all 2 (take 3 ?xs) (useMeshHistory (sample_mesh 0))) = 2 - 1"
    by blast
  then have "historyLength (record_all 2 (map sample_mesh [1, 2, 3]) (useMeshHistory (sample_mesh 0))) = 2
      \<and> indexRef (record_all 2 (map sample_mesh [1, 2, 3]) (useMeshHistory (sample_mesh 0))) = 1"
    by simp
  with b h show ?thesis by simp
qed

subsection \<open>Undo and redo\<close>

lemma setMesh_changed:
  assumes cur: "js_index (historyRef h) (indexRef h) = Some cur"
    and ne: "JSON_stringify cur \<noteq> JSON_stringify x" and N: "2 \<le> N"
  shows "0 < indexRef (setMesh N x h)"
    and "js_index (historyRef (setMesh N x h)) (indexRef (setMesh N x h) - 1) = Some cur"
    and "js_index (historyRef (setMesh N x h)) (indexRef (setMesh N x h)) = Some x"
    and "Suc (indexRef (setMesh N x h)) = length (historyRef (setMesh N x h))"
    and "meshState (setMesh N x h) = Some x"
proof -
  let ?H = "historyRef h" and ?i = "indexRef h"
  from cur have i: "?i < length ?H" and ci: "?H ! ?i = cur"
    by (auto simp: js_index_def split: if_splits)
  then have len: "length (take (?i + 1) ?H) = ?i + 1" by simp
  have changed: "Some (JSON_stringify x) \<noteq> map_option JSON_stringify (js_index ?H ?i)"
    using cur ne by auto
  show "0 < indexRef (setMesh N x h)"
    using changed N i by (auto simp: setMesh_def Let_def)
  show "js_index (historyRef (setMesh N x h)) (indexRef (setMesh N x h) - 1) = Some cur"
    using changed N i ci
    by (auto simp: setMesh_def Let_def js_index_def nth_append nth_tl)
  show "js_index (historyRef (setMesh N x h)) (indexRef (setMesh N x h)) = Some x"
    using changed N i 
    by (auto simp: setMesh_def Let_def js_index_def nth_append nth_tl)
  show "Suc (indexRef (setMesh N x h)) = length (historyRef (setMesh N x h))"
    using changed N i by (auto simp: setMesh_def Let_def)
  show "meshState (setMesh N x h) = Some x"
    using changed by (auto simp: setMesh_def Let_def)
qed

lemma setMesh_current:
  assumes cur: "js_index (historyRef h) (indexRef h) = Some cur"
    and fin: "finite_mesh cur" "finite_mesh x" and N: "2 \<le> N"
  shows "js_index (historyRef (setMesh N x h)) (indexRef (setMesh N x h)) = Some x"
proof (cases "JSON_stringify cur = JSON_stringify x")
  case True
  with fin have "cur = x" by (intro JSON_stringify_inj)
  with cur show ?thesis by (simp add: setMesh_def)
next
  case False
  from setMesh_changed(3) [OF cur False N] show ?thesis .
qed

text \<open>
  Claim C4.  In a history with a valid cursor and a bound of at least two, for different
  meshes \<open>A\<close> and \<open>B\<close> (finite coordinates, as the snapshot at the cursor): after
  recording \<open>A\<close>, recording \<open>B\<close> and one undo the current mesh is \<open>A\<close>, and after a
  redo it is \<open>B\<close>.  Undo changes nothing when the cursor is \<open>0\<close>, redo changes nothing
  when the cursor is at the last snapshot.
\<close>

theorem record_undo_redo:
  assumes cur: "js_index (historyRef h) (indexRef h) = Some cur"
    and fin: "finite_mesh cur" "finite_mesh A" "finite_mesh B"
    and AB: "A \<noteq> B" and N: "2 \<le> N"
  shows "meshState (undo (setMesh N B (setMesh N A h))) = Some A
       \<and> js_index (historyRef (undo (setMesh N B (setMesh N A h))))
                  (indexRef (undo (setMesh N B (setMesh N A h)))) = Some A
       \<and> meshState (redo (undo (setMesh N B (setMesh N A h)))) = Some B
       \<and> js_index (historyRef (redo (undo (setMesh N B (setMesh N A h)))))
                  (indexRef (redo (undo (setMesh N B (setMesh N A h))))) = Some B
       \<and> (indexRef h = 0 \<longrightarrow> undo h = h)
       \<and> (Suc (indexRef h) = length (historyRef h) \<longrightarrow> redo h = h)"
proof -
  let ?h1 = "setMesh N A h"
  let ?h2 = "setMesh N B ?h1"
  have c1: "js_index (historyRef ?h1) (indexRef ?h1) = Some A"
    by (rule setMesh_current [OF cur fin(1,2) N])
  have ne: "JSON_stringify A \<noteq> JSON_stringify B"
    using JSON_stringify_inj [OF fin(2,3)] AB by blast
  note s = setMesh_changed [OF c1 ne N]
  have u: "undo ?h2 = ?h2\<lparr>indexRef := indexRef ?h2 - 1, meshState := Some A\<rparr>"
    using s(1,2) by (simp add: undo_def)
  have r: "redo (undo ?h2) = ?h2\<lparr>indexRef := indexRef ?h2, meshState := Some B\<rparr>"
    using s(1,3,4) unfolding u by (simp add: redo_def)
  have "indexRef h = 0 \<longrightarrow> undo h = h" by (simp add: undo_def)
  moreover have "Suc (indexRef h) = length (historyRef h) \<longrightarrow> redo h = h"
    by (auto simp: redo_def)
  moreover have "meshState (undo ?h2) = Some A" unfolding u by simp
  moreover have "js_index (historyRef (undo ?h2)) (indexRef (undo ?h2)) = Some A"
    unfolding u using s(2) by simp
  moreover have "meshState (redo (undo ?h2)) = Some B" unfolding r by simp
  moreover have "js_index (historyRef (redo (undo ?h2))) (indexRef (redo (undo ?h2))) = Some B"
    unfolding r using s(3) by simp
  ultimately show ?thesis by blast
qed

theorem record_undo_redo_witness:
  "js_index (historyRef (useMeshHistory (sample_mesh 0))) (indexRef (useMeshHistory (sample_mesh 0)))
     = Some (sample_mesh 0)
   \<and> finite_mesh (sample_mesh 0) \<and> finite_mesh (sample_mesh 1) \<and> finite_mesh (sample_mesh 2)
   \<and> sample_mesh 1 \<noteq> sample_mesh 2 \<and> 2 \<le> MAX_HISTORY
   \<and> meshState (undo (setMesh MAX_HISTORY (sample_mesh 2)
         (setMesh MAX_HISTORY (sample_mesh 1) (useMeshHistory (sample_mesh 0))))) = Some (sample_mesh 1)
   \<and> meshState (redo (undo (setMesh MAX_HISTORY (sample_mesh 2)
         (setMesh MAX_HISTORY (sample_mesh 1) (useMeshHistory (sample_mesh 0)))))) = Some (sample_mesh 2)
   \<and> undo (useMeshHistory (sample_mesh 0)) = useMeshHistory (sample_mesh 0)
   \<and> redo (useMeshHistory (sample_mesh 0)) = useMeshHistory (sample_mesh 0)"
proof -
  have h: "js_index (historyRef (useMeshHistory (sample_mesh 0)))
             (indexRef (useMeshHistory (sample_mesh 0))) = Some (sample_mesh 0)"
    "finite_mesh (sample_mesh 0)" "finite_mesh (sample_mesh 1)" "finite_mesh (sample_mesh 2)"
    "sample_mesh 1 \<noteq> sample_mesh 2" "2 \<le> MAX_HISTORY"
    by (simp_all add: sample_mesh_def finite_mesh_def finite_point_def useMeshHistory_def
        js_index_def MAX_HISTORY_def)
  have i: "indexRef (useMeshHistory (sample_mesh 0)) = 0"
    "Suc (indexRef (useMeshHistory (sample_mesh 0))) = length (historyRef (useMeshHistory (sample_mesh 0)))"
    by (simp_all add: useMeshHistory_def)
  from record_undo_redo [OF h] h i show ?thesis by simp
qed

section \<open>Mesh editor\<close>

lemma point_dist_finite:
  assumes "finite_point p"
  shows "point_dist \<lparr>width = Fin w, height = Fin h\<rparr> (Fin tx) (Fin ty) p
           = Fin (pixel_distance w h tx ty p)"
proof -
  from assms obtain x y where "p_x p = Fin x" "p_y p = Fin y"
    by (cases "p_x p"; cases "p_y p") (simp_all add: finite_point_def)
  then show ?thesis
    by (simp add: point_dist_def pixel_distance_def js_pow2_def js_sub_def power2_eq_square
        not_less)
qed

lemma findNearestPoint_loop_finite:
  fixes w h tx ty :: real
  assumes "finite_mesh ps"
  defines "d \<equiv> pixel_distance w h tx ty"
  shows "\<exists>n' m'. findNearestPoint_loop \<lparr>width = Fin w, height = Fin h\<rparr> (Fin tx) (Fin ty) ps (n, Fin m)
                  = (n', Fin m')
           \<and> ((\<forall>p\<in>set ps. m \<le> d p) \<longrightarrow> n' = n \<and> m' = m)
           \<and> ((\<exists>p\<in>set ps. d p < m) \<longrightarrow>
                (\<exists>k<length ps. n' = Some (p_id (ps ! k)) \<and> m' = d (ps ! k) \<and> d (ps ! k) < m
                   \<and> (\<forall>j<length ps. d (ps ! k) \<le> d (ps ! j))
                   \<and> (\<forall>j<k. d (ps ! k) < d (ps ! j))))"
  using assms(1)
proof (induction ps arbitrary: n m)
  case Nil
  then show ?case by simp
next
  case (Cons p ps)
  let ?sz = "\<lparr>width = Fin w, height = Fin h\<rparr>"
  from Cons.prems have fp: "finite_point p" and fps: "finite_mesh ps"
    by (simp_all add: finite_mesh_def)
  have dist: "point_dist ?sz (Fin tx) (Fin ty) p = Fin (d p)"
    unfolding d_def by (rule point_dist_finite [OF fp])
  show ?case
  proof (cases "d p < m")
    case True
    then have step: "findNearestPoint_loop ?sz (Fin tx) (Fin ty) (p # ps) (n, Fin m)
        = findNearestPoint_loop ?sz (Fin tx) (Fin ty) ps (Some (p_id p), Fin (d p))"
      by (simp add: dist)
    from Cons.IH [OF fps, of "Some (p_id p)" "d p"] obtain n' m' where
      r: "findNearestPoint_loop ?sz (Fin tx) (Fin ty) ps (Some (p_id p), Fin (d p)) = (n', Fin m')"
      and keep: "(\<forall>q\<in>set ps. d p \<le> d q) \<longrightarrow> n' = Some (p_id p) \<and> m' = d p"
      and upd: "(\<exists>q\<in>set ps. d q < d p) \<longrightarrow>
                (\<exists>k<length ps. n' = Some (p_id (ps ! k)) \<and> m' = d (ps ! k) \<and> d (ps ! k) < d p
                   \<and> (\<forall>j<length ps. d (ps ! k) \<le> d (ps ! j))
                   \<and> (\<forall>j<k. d (ps ! k) < d (ps ! j)))"
      by blast
    have "\<exists>k<length (p # ps). n' = Some (p_id ((p # ps) ! k)) \<and> m' = d ((p # ps) ! k)
                   \<and> d ((p # ps) ! k) < m
                   \<and> (\<forall>j<length (p # ps). d ((p # ps) ! k) \<le> d ((p # ps) ! j))
                   \<and> (\<forall>j<k. d ((p # ps) ! k) < d ((p # ps) ! j))"
    proof (cases "\<forall>q\<in>set ps. d p \<le> d q")
      case all: True
      with keep have "n' = Some (p_id p)" "m' = d p" by simp_all
      moreover have "\<forall>j<length (p # ps). d p \<le> d ((p # ps) ! j)"
        using all by (auto simp: nth_Cons split: nat.splits)
      ultimately show ?thesis using True by (intro exI [of _ 0]) simp
    next
      case False
      then have "\<exists>q\<in>set ps. d q < d p" by (auto simp: not_le)
      with upd obtain k where k: "k < length ps" "n' = Some (p_id (ps ! k))" "m' = d (ps ! k)"
        "d (ps ! k) < d p" "\<forall>j<length ps. d (ps ! k) \<le> d (ps ! j)"
        "\<forall>j<k. d (ps ! k) < d (ps ! j)" by blast
      have "\<forall>j<length (p # ps). d (ps ! k) \<le> d ((p # ps) ! j)"
        using k(4,5) by (auto simp: nth_Cons split: nat.splits)
      moreover have "\<forall>j<Suc k. d (ps ! k) < d ((p # ps) ! j)"
        using k(4,6) by (auto simp: nth_Cons split: nat.splits)
      ultimately show ?thesis using k(1,2,3,4) True by (intro exI [of _ "Suc k"]) simp
    qed
    moreover have "\<not> (\<forall>q\<in>set (p # ps). m \<le> d q)" using True by auto
    ultimately show ?thesis unfolding step r by blast
  next
    case False
    then have le: "m \<le> d p" by simp
    from False have step: "findNearestPoint_loop ?sz (Fin tx) (Fin ty) (p # ps) (n, Fin m)
        = findNearestPoint_loop ?sz (Fin tx) (Fin ty) ps (n, Fin m)"
      by (simp add: dist)
    from Cons.IH [OF fps, of n m] obtain n' m' where
      r: "findNearestPoint_loop ?sz (Fin tx) (Fin ty) ps (n, Fin m) = (n', Fin m')"
      and keep: "(\<forall>q\<in>set ps. m \<le> d q) \<longrightarrow> n' = n \<and> m' = m"
      and upd: "(\<exists>q\<in>set ps. d q < m) \<longrightarrow>
                (\<exists>k<length ps. n' = Some (p_id (ps ! k)) \<and> m' = d (ps ! k) \<and> d (ps ! k) < m
                   \<and> (\<forall>j<length ps. d (ps ! k) \<le> d (ps ! j))
                   \<and> (\<forall>j<k. d (ps ! k) < d (ps ! j)))"
      by blast
    have "\<exists>k<length (p # ps). n' = Some (p_id ((p # ps) ! k)) \<and> m' = d ((p # ps) ! k)
                   \<and> d ((p # ps) ! k) < m
                   \<and> (\<forall>j<length (p # ps). d ((p # ps) ! k) \<le> d ((p # ps) ! j))
                   \<and> (\<forall>j<k. d ((p # ps) ! k) < d ((p # ps) ! j))"
      if "\<exists>q\<in>set (p # ps). d q < m"
    proof -
      from that le have "\<exists>q\<in>set ps. d q < m" by auto
      with upd obtain k where k: "k < length ps" "n' = Some (p_id (ps ! k))" "m' = d (ps ! k)"
        "d (ps ! k) < m" "\<forall>j<length ps. d (ps ! k) \<le> d (ps ! j)"
        "\<forall>j<k. d (ps ! k) < d (ps ! j)" by blast
      have "\<forall>j<length (p # ps). d (ps ! k) \<le> d ((p # ps) ! j)"
        using k(4,5) le by (auto simp: nth_Cons split: nat.splits)
      moreover have "\<forall>j<Suc k. d (ps ! k) < d ((p # ps) ! j)"
        using k(4,6) le by (auto simp: nth_Cons split: nat.splits)
      ultimately show ?thesis using k(1,2,3,4) by (intro exI [of _ "Suc k"]) simp
    qed
    moreover have "n' = n \<and> m' = m" if "\<forall>q\<in>set (p # ps). m \<le> d q"
      using that keep by simp
    ultimately show ?thesis unfolding step r by blast
  qed
qed

text \<open>
  Claim C6.  For a mesh with finite coordinates in a viewport of \<open>w\<close> by \<open>h\<close> pixels, with
  \<open>d p\<close> the Euclidean distance between the touch and the pixel position of point \<open>p\<close>:
  the hit test returns nothing exactly when every point is at distance \<open>32\<close> or more; a
  returned id belongs to a point at distance below \<open>32\<close> that no point beats and that is
  strictly closer than every point before it in the array (the first of the nearest
  wins); a touch exactly at the pixel position of a point selects the first point at
  distance \<open>0\<close>; and without a layout size nothing is returned.
\<close>

theorem findNearestPoint_nearest:
  fixes w h tx ty :: real
  assumes "finite_mesh mesh"
  defines "d \<equiv> pixel_distance w h tx ty"
    and "res \<equiv> findNearestPoint (Some \<lparr>width = Fin w, height = Fin h\<rparr>) mesh (Fin tx) (Fin ty)"
  shows "(res = None \<longleftrightarrow> (\<forall>p\<in>set mesh. 32 \<le> d p))
       \<and> (\<forall>i. res = Some i \<longrightarrow>
            (\<exists>k<length mesh. i = p_id (mesh ! k) \<and> d (mesh ! k) < 32
               \<and> (\<forall>j<length mesh. d (mesh ! k) \<le> d (mesh ! j))
               \<and> (\<forall>j<k. d (mesh ! k) < d (mesh ! j))))
       \<and> (\<forall>p\<in>set mesh. tx = fin_val (p_x p) * w \<and> ty = fin_val (p_y p) * h \<longrightarrow>
            (\<exists>k<length mesh. res = Some (p_id (mesh ! k)) \<and> d (mesh ! k) = 0
               \<and> (\<forall>j<k. 0 < d (mesh ! j))))
       \<and> findNearestPoint None mesh (Fin tx) (Fin ty) = None"
proof -
  let ?sz = "\<lparr>width = Fin w, height = Fin h\<rparr>"
  have thr: "js_add HANDLE_HIT_SLOP HANDLE_RADIUS = Fin 32"
    by (simp add: HANDLE_HIT_SLOP_def HANDLE_RADIUS_def)
  from findNearestPoint_loop_finite [OF assms(1), of w h tx ty None 32]
  obtain n' m' where
    r: "findNearestPoint_loop ?sz (Fin tx) (Fin ty) mesh (None, Fin 32) = (n', Fin m')"
    and keep: "(\<forall>p\<in>set mesh. 32 \<le> d p) \<longrightarrow> n' = None \<and> m' = 32"
    and upd: "(\<exists>p\<in>set mesh. d p < 32) \<longrightarrow>
                (\<exists>k<length mesh. n' = Some (p_id (mesh ! k)) \<and> m' = d (mesh ! k)
                   \<and> d (mesh ! k) < 32
                   \<and> (\<forall>j<length mesh. d (mesh ! k) \<le> d (mesh ! j))
                   \<and> (\<forall>j<k. d (mesh ! k) < d (mesh ! j)))"
    unfolding d_def by blast
  have res: "res = n'" by (simp add: res_def findNearestPoint_def thr r)
  have none: "res = None \<longleftrightarrow> (\<forall>p\<in>set mesh. 32 \<le> d p)"
  proof
    assume "res = None"
    show "\<forall>p\<in>set mesh. 32 \<le> d p"
    proof (rule ccontr)
      assume "\<not> (\<forall>p\<in>set mesh. 32 \<le> d p)"
      then have "\<exists>p\<in>set mesh. d p < 32" by (auto simp: not_le)
      with upd res \<open>res = None\<close> show False by auto
    qed
  next
    assume "\<forall>p\<in>set mesh. 32 \<le> d p"
    with keep res show "res = None" by simp
  qed
  have some: "\<exists>k<length mesh. i = p_id (mesh ! k) \<and> d (mesh ! k) < 32
               \<and> (\<forall>j<length mesh. d (mesh ! k) \<le> d (mesh ! j))
               \<and> (\<forall>j<k. d (mesh ! k) < d (mesh ! j))" if "res = Some i" for i
  proof -
    from that none have "\<exists>p\<in>set mesh. d p < 32" by (auto simp: not_le)
    with upd res that show ?thesis by auto
  qed
  have nonneg: "0 \<le> d p" for p by (simp add: d_def pixel_distance_def)
  have at: "\<exists>k<length mesh. res = Some (p_id (mesh ! k)) \<and> d (mesh ! k) = 0
               \<and> (\<forall>j<k. 0 < d (mesh ! j))"
    if p: "p \<in> set mesh" and pos: "tx = fin_val (p_x p) * w \<and> ty = fin_val (p_y p) * h" for p
  proof -
    from pos have zero: "d p = 0" by (simp add: d_def pixel_distance_def)
    with p have "\<exists>p\<in>set mesh. d p < 32" by force
    with upd res obtain k where k: "k < length mesh" "res = Some (p_id (mesh ! k))"
      "\<forall>j<length mesh. d (mesh ! k) \<le> d (mesh ! j)" "\<forall>j<k. d (mesh ! k) < d (mesh ! j)"
      by auto
    from p obtain j where "j < length mesh" "mesh ! j = p" by (auto simp: in_set_conv_nth)
    with k(3) zero have "d (mesh ! k) \<le> 0" by auto
    with nonneg [of "mesh ! k"] have dk: "d (mesh ! k) = 0" by simp
    with k show ?thesis by auto
  qed
  have "findNearestPoint None mesh (Fin tx) (Fin ty) = None"
    by (simp add: findNearestPoint_def)
  with none some at show ?thesis by blast
qed

theorem findNearestPoint_nearest_witness:
  "finite_mesh (buildDefaultMesh 2 2)
   \<and> findNearestPoint (Some \<lparr>width = Fin 100, height = Fin 100\<rparr>) (buildDefaultMesh 2 2)
        (Fin 100) (Fin 0) \<noteq> None
   \<and> findNearestPoint (Some \<lparr>width = Fin 100, height = Fin 100\<rparr>) (buildDefaultMesh 2 2)
        (Fin 0) (Fin 0) = Some ''0-0''
   \<and> findNearestPoint (Some \<lparr>width = Fin 100, height = Fin 100\<rparr>) (buildDefaultMesh 2 2)
        (Fin 50) (Fin 50) = None"
proof -
  have f: "finite_mesh (buildDefaultMesh 2 2)"
    by (simp add: buildDefaultMesh_2_2 finite_mesh_def finite_point_def)
  have far: "32 \<le> sqrt 5000" by (rule real_le_rsqrt) simp
  note t = findNearestPoint_nearest [OF f, of 100 100]
  have "findNearestPoint (Some \<lparr>width = Fin 100, height = Fin 100\<rparr>) (buildDefaultMesh 2 2)
        (Fin 50) (Fin 50) = None"
    using t [of 50 50] far by (simp add: buildDefaultMesh_2_2 pixel_distance_def)
  moreover have "findNearestPoint (Some \<lparr>width = Fin 100, height = Fin 100\<rparr>) (buildDefaultMesh 2 2)
        (Fin 100) (Fin 0) \<noteq> None"
    using t [of 100 0] by (auto simp: buildDefaultMesh_2_2)
  moreover have "findNearestPoint (Some \<lparr>width = Fin 100, height = Fin 100\<rparr>) (buildDefaultMesh 2 2)
        (Fin 0) (Fin 0) = Some ''0-0''"
    by (simp add: buildDefaultMesh_2_2 findNearestPoint_def point_dist_def js_pow2_def js_sub_def
        HANDLE_HIT_SLOP_def HANDLE_RADIUS_def)
  ultimately show ?thesis using f by simp
qed

text \<open>
  Claim C7.  In a viewport of positive width and height the drag update replaces the
  coordinates of the points with the given id by the touch position clamped to the
  viewport and divided by its size, which lies in \<open>[0, 1]\<close>, and leaves every other
  point, the length and the order of the mesh as they are.
\<close>

theorem updatePoint_frame:
  fixes w h tx ty :: real
  assumes "0 < w" "0 < h"
  defines "nx \<equiv> max 0 (min w tx) / w" and "ny \<equiv> max 0 (min h ty) / h"
  shows "updatePoint (Some \<lparr>width = Fin w, height = Fin h\<rparr>) mesh ident (Fin tx) (Fin ty)
           = Some (map (\<lambda>p. if p_id p = ident then \<lparr>p_id = ident, p_x = Fin nx, p_y = Fin ny\<rparr>
                              else p) mesh)
       \<and> 0 \<le> nx \<and> nx \<le> 1 \<and> 0 \<le> ny \<and> ny \<le> 1
       \<and> (\<forall>m'. updatePoint (Some \<lparr>width = Fin w, height = Fin h\<rparr>) mesh ident (Fin tx) (Fin ty)
                  = Some m' \<longrightarrow>
              length m' = length mesh
            \<and> (\<forall>k<length mesh. p_id (mesh ! k) \<noteq> ident \<longrightarrow> m' ! k = mesh ! k)
            \<and> (\<forall>k<length mesh. p_id (mesh ! k) = ident \<longrightarrow>
                  m' ! k = \<lparr>p_id = ident, p_x = Fin nx, p_y = Fin ny\<rparr>))"
proof -
  have cx: "js_max2 (Fin 0) (js_min2 (Fin w) (Fin tx)) = Fin (max 0 (min w tx))"
    and cy: "js_max2 (Fin 0) (js_min2 (Fin h) (Fin ty)) = Fin (max 0 (min h ty))"
    by (auto simp: max_def min_def)
  have upd: "p\<lparr>p_x := Fin nx, p_y := Fin ny\<rparr> = \<lparr>p_id = ident, p_x = Fin nx, p_y = Fin ny\<rparr>"
    if "p_id p = ident" for p :: MeshPoint
    using that by (cases p) simp
  have eq: "updatePoint (Some \<lparr>width = Fin w, height = Fin h\<rparr>) mesh ident (Fin tx) (Fin ty)
           = Some (map (\<lambda>p. if p_id p = ident then \<lparr>p_id = ident, p_x = Fin nx, p_y = Fin ny\<rparr>
                              else p) mesh)"
    using assms(1,2) by (simp add: updatePoint_def cx cy nx_def ny_def upd cong: if_cong)
  have "0 \<le> nx" "nx \<le> 1" "0 \<le> ny" "ny \<le> 1"
    using assms(1,2) by (simp_all add: nx_def ny_def)
  then show ?thesis unfolding eq by simp
qed

theorem updatePoint_frame_witness:
  "(0::real) < 100
   \<and> updatePoint (Some \<lparr>width = Fin 100, height = Fin 100\<rparr>) (buildDefaultMesh 4 4) ''1-1''
        (Fin 40) (Fin 30)
     = Some ((buildDefaultMesh 4 4)[5 := \<lparr>p_id = ''1-1'', p_x = Fin (2 / 5), p_y = Fin (3 / 10)\<rparr>])
   \<and> updatePoint (Some \<lparr>width = Fin 100, height = Fin 100\<rparr>) (buildDefaultMesh 4 4) ''1-1''
        (Fin 250) (Fin (- 7))
     = Some ((buildDefaultMesh 4 4)[5 := \<lparr>p_id = ''1-1'', p_x = Fin 1, p_y = Fin 0\<rparr>])"
proof -
  have h: "(0::real) < 100" by simp
  from updatePoint_frame [OF h h, of "buildDefaultMesh 4 4" "''1-1''" 40 30]
    updatePoint_frame [OF h h, of "buildDefaultMesh 4 4" "''1-1''" 250 "- 7"] h
  show ?thesis by (simp add: buildDefaultMesh_4_4)
qed

section \<open>Warp renderer on the default mesh\<close>

lemma getMeshPoint_identity:
  assumes "2 \<le> g" "row < g" "col < g"
  shows "getMeshPoint (buildDefaultMesh g g) (Fin w) (Fin h) g row col
           = \<lparr>pt_x = Fin (real col / (real g - 1) * w), pt_y = Fin (real row / (real g - 1) * h)\<rparr>"
  using assms grid_index_bound [OF assms(2,3)]
  by (simp add: getMeshPoint_def js_index_def buildDefaultMesh_length buildDefaultMesh_nth
      defaultPoint_Fin)

lemma js_min_max_Fin:
  "js_min2 (Fin a) (Fin b) = Fin (min a b)" "js_max2 (Fin a) (Fin b) = Fin (max a b)"
  "js_min2 PosInf (Fin a) = Fin a" "js_max2 NegInf (Fin a) = Fin a"
  by (auto simp: min_def max_def)

lemma bilinear_rect:
  "bilinear \<lparr>pt_x = Fin x0, pt_y = Fin y0\<rparr> \<lparr>pt_x = Fin x1, pt_y = Fin y0\<rparr>
            \<lparr>pt_x = Fin x1, pt_y = Fin y1\<rparr> \<lparr>pt_x = Fin x0, pt_y = Fin y1\<rparr> (Fin u) (Fin v)
     = \<lparr>pt_x = Fin (x0 + (x1 - x0) * u), pt_y = Fin (y0 + (y1 - y0) * v)\<rparr>"
  by (simp add: bilinear_def lerp_def js_sub_def)

lemma subQuad_rect:
  assumes "x0 \<le> x1" "y0 \<le> y1" "0 < n"
  shows "subQuad (Fin sx) (Fin sy) (Fin sw) (Fin sh)
           \<lparr>pt_x = Fin x0, pt_y = Fin y0\<rparr> \<lparr>pt_x = Fin x1, pt_y = Fin y0\<rparr>
           \<lparr>pt_x = Fin x1, pt_y = Fin y1\<rparr> \<lparr>pt_x = Fin x0, pt_y = Fin y1\<rparr> n i j
     = \<lparr>clipPath =
          [\<lparr>pt_x = Fin (x0 + (x1 - x0) * (real i / real n)),
            pt_y = Fin (y0 + (y1 - y0) * (real j / real n))\<rparr>,
           \<lparr>pt_x = Fin (x0 + (x1 - x0) * ((real i + 1) / real n)),
            pt_y = Fin (y0 + (y1 - y0) * (real j / real n))\<rparr>,
           \<lparr>pt_x = Fin (x0 + (x1 - x0) * ((real i + 1) / real n)),
            pt_y = Fin (y0 + (y1 - y0) * ((real j + 1) / real n))\<rparr>,
           \<lparr>pt_x = Fin (x0 + (x1 - x0) * (real i / real n)),
            pt_y = Fin (y0 + (y1 - y0) * ((real j + 1) / real n))\<rparr>],
        srcRect = (Fin (sx + sw * (real i / real n)), Fin (sy + sh * (real j / real n)),
                   Fin (sw / real n), Fin (sh / real n)),
        dstRect = (Fin (x0 + (x1 - x0) * (real i / real n)),
                   Fin (y0 + (y1 - y0) * (real j / real n)),
                   Fin ((x1 - x0) / real n), Fin ((y1 - y0) / real n))\<rparr>"
proof -
  let ?P0 = "\<lparr>pt_x = Fin x0, pt_y = Fin y0\<rparr>" and ?P1 = "\<lparr>pt_x = Fin x1, pt_y = Fin y0\<rparr>"
  let ?P2 = "\<lparr>pt_x = Fin x1, pt_y = Fin y1\<rparr>" and ?P3 = "\<lparr>pt_x = Fin x0, pt_y = Fin y1\<rparr>"
  define xa where "xa = x0 + (x1 - x0) * (real i / real n)"
  define xb where "xb = x0 + (x1 - x0) * ((real i + 1) / real n)"
  define ya where "ya = y0 + (y1 - y0) * (real j / real n)"
  define yb where "yb = y0 + (y1 - y0) * ((real j + 1) / real n)"
  from assms have n: "real n \<noteq> 0" "0 < real n" by simp_all
  from assms(1) n(2) have xab: "xa \<le> xb"
    unfolding xa_def xb_def by (simp add: divide_right_mono mult_left_mono)
  from assms(2) n(2) have yab: "ya \<le> yb"
    unfolding ya_def yb_def by (simp add: divide_right_mono mult_left_mono)
  have mx: "Math_min [Fin xa, Fin xb, Fin xb, Fin xa] = Fin xa"
    "Math_max [Fin xa, Fin xb, Fin xb, Fin xa] = Fin xb"
    using xab by (simp_all add: Math_min_def Math_max_def js_min_max_Fin min_def max_def)
  have my: "Math_min [Fin ya, Fin ya, Fin yb, Fin yb] = Fin ya"
    "Math_max [Fin ya, Fin ya, Fin yb, Fin yb] = Fin yb"
    using yab by (simp_all add: Math_min_def Math_max_def js_min_max_Fin min_def max_def)
  have frac: "(real k + 1) / real n - real k / real n = 1 / real n" for k
    by (simp add: diff_divide_distrib [symmetric])
  have "xb - xa = (x1 - x0) * ((real i + 1) / real n - real i / real n)"
    unfolding xa_def xb_def by (simp only: right_diff_distrib)
  then have wx: "xb - xa = (x1 - x0) / real n" by (simp only: frac) simp
  have "yb - ya = (y1 - y0) * ((real j + 1) / real n - real j / real n)"
    unfolding ya_def yb_def by (simp only: right_diff_distrib)
  then have wy: "yb - ya = (y1 - y0) / real n" by (simp only: frac) simp
  have u: "js_div (Fin (real k)) (Fin (real n)) = Fin (real k / real n)"
    "js_div (js_add (Fin (real k)) (Fin 1)) (Fin (real n)) = Fin ((real k + 1) / real n)" for k
    using n(1) by simp_all
  have q: "bilinear ?P0 ?P1 ?P2 ?P3 (Fin (real i / real n)) (Fin (real j / real n))
             = \<lparr>pt_x = Fin xa, pt_y = Fin ya\<rparr>"
    "bilinear ?P0 ?P1 ?P2 ?P3 (Fin ((real i + 1) / real n)) (Fin (real j / real n))
             = \<lparr>pt_x = Fin xb, pt_y = Fin ya\<rparr>"
    "bilinear ?P0 ?P1 ?P2 ?P3 (Fin ((real i + 1) / real n)) (Fin ((real j + 1) / real n))
             = \<lparr>pt_x = Fin xb, pt_y = Fin yb\<rparr>"
    "bilinear ?P0 ?P1 ?P2 ?P3 (Fin (real i / real n)) (Fin ((real j + 1) / real n))
             = \<lparr>pt_x = Fin xa, pt_y = Fin yb\<rparr>"
    unfolding xa_def xb_def ya_def yb_def by (rule bilinear_rect)+
  have "subQuad (Fin sx) (Fin sy) (Fin sw) (Fin sh) ?P0 ?P1 ?P2 ?P3 n i j
     = \<lparr>clipPath = [\<lparr>pt_x = Fin xa, pt_y = Fin ya\<rparr>, \<lparr>pt_x = Fin xb, pt_y = Fin ya\<rparr>,
                     \<lparr>pt_x = Fin xb, pt_y = Fin yb\<rparr>, \<lparr>pt_x = Fin xa, pt_y = Fin yb\<rparr>],
        srcRect = (Fin (sx + sw * (real i / real n)), Fin (sy + sh * (real j / real n)),
                   Fin (sw / real n), Fin (sh / real n)),
        dstRect = (Fin xa, Fin ya, Fin (xb - xa), Fin (yb - ya))\<rparr>"
    unfolding subQuad_def Let_def u q using n(1) by (simp add: mx my js_sub_def)
  then show ?thesis unfolding wx wy unfolding xa_def xb_def ya_def yb_def .
qed

lemma unwarped_call_eq:
  fixes w h vw vh :: real
  assumes g: "2 \<le> g" and vw: "0 < vw" and vh: "0 < vh" and wh: "0 < w" "0 < h"
  shows "subQuad (Fin (real col * (vw / (real g - 1)))) (Fin (real row * (vh / (real g - 1))))
           (Fin (vw / (real g - 1))) (Fin (vh / (real g - 1)))
           \<lparr>pt_x = Fin (real col / (real g - 1) * w), pt_y = Fin (real row / (real g - 1) * h)\<rparr>
           \<lparr>pt_x = Fin (real (col + 1) / (real g - 1) * w), pt_y = Fin (real row / (real g - 1) * h)\<rparr>
           \<lparr>pt_x = Fin (real (col + 1) / (real g - 1) * w),
            pt_y = Fin (real (row + 1) / (real g - 1) * h)\<rparr>
           \<lparr>pt_x = Fin (real col / (real g - 1) * w), pt_y = Fin (real (row + 1) / (real g - 1) * h)\<rparr>
           2 i j
         = unwarped_call w h vw vh g row col i j"
proof -
  from g have g1: "0 < real g - 1" by simp
  have x: "real col / (real g - 1) * w \<le> real (col + 1) / (real g - 1) * w"
    using g1 wh(1) by (simp add: divide_right_mono mult_right_mono)
  have y: "real row / (real g - 1) * h \<le> real (row + 1) / (real g - 1) * h"
    using g1 wh(2) by (simp add: divide_right_mono mult_right_mono)
  define d where "d = real g - 1"
  from g1 have d: "0 < d" by (simp add: d_def)
  show ?thesis
    unfolding subQuad_rect [OF x y zero_less_numeral] unwarped_call_def Let_def
    unfolding d_def [symmetric]
    using d vw vh by (simp add: field_simps)
qed

lemma render_cell_identity:
  fixes w h vw0 vh0 :: real
  assumes g: "2 \<le> g" and wh: "0 < w" "0 < h" and v0: "0 \<le> vw0" "0 \<le> vh0"
    and vid: "videoWidth video = Fin vw0" "videoHeight video = Fin vh0"
    and rc: "row < g - 1" "col < g - 1"
  shows "render_cell (buildDefaultMesh g g) (Fin w) (Fin h) g video row col
           = concat (map (\<lambda>i. map (\<lambda>j. unwarped_call w h (if vw0 = 0 then w else vw0)
                                           (if vh0 = 0 then h else vh0) g row col i j)
                                   [0..<2]) [0..<2])"
proof -
  let ?vw = "if vw0 = 0 then w else vw0" and ?vh = "if vh0 = 0 then h else vh0"
  from wh v0 have pos: "0 < ?vw" "0 < ?vh" by auto
  from rc have b: "row < g" "col < g" "row + 1 < g" "col + 1 < g" by simp_all
  have vor: "js_or (Fin vw0) (Fin w) = Fin ?vw" "js_or (Fin vh0) (Fin h) = Fin ?vh"
    by (simp_all add: js_or_def)
  from g have cell: "js_div (Fin v) (js_sub (Fin (real g)) (Fin 1)) = Fin (v / (real g - 1))" for v
    by (simp add: js_sub_def)
  note pts = getMeshPoint_identity [OF g b(1,2)] getMeshPoint_identity [OF g b(1,4)]
    getMeshPoint_identity [OF g b(3,4)] getMeshPoint_identity [OF g b(3,2)]
  have mul: "js_mul (Fin a) (Fin c) = Fin (a * c)" for a c by simp
  show ?thesis
    unfolding render_cell_def Let_def vid vor cell pts mul drawWarpedQuad_def
      unwarped_call_eq [OF g pos wh] ..
qed

text \<open>
  Claim C2.  On the default mesh of the renderer's grid size \<open>g \<ge> 2\<close>, with an output of
  positive size and a playing video, the renderer issues for every cell and every
  sub-cell exactly the unwarped drawing call: the source sub-rectangle is the
  proportional part of the source cell and the destination quad is that rectangle scaled
  from source size to output size.  The source size is the video's, or the output's
  where the video reports \<open>0\<close>.
\<close>

theorem render_identity:
  fixes w h vw0 vh0 :: real
  assumes "2 \<le> g" "0 < w" "0 < h" "0 \<le> vw0" "0 \<le> vh0"
    and "\<not> paused video" "\<not> ended video"
    and "videoWidth video = Fin vw0" "videoHeight video = Fin vh0"
  shows "render (buildDefaultMesh g g) (Fin w) (Fin h) g video
           = Some (concat (map (\<lambda>row. concat (map (\<lambda>col. concat (map (\<lambda>i. map (\<lambda>j.
                     unwarped_call w h (if vw0 = 0 then w else vw0) (if vh0 = 0 then h else vh0)
                       g row col i j) [0..<2]) [0..<2])) [0..<g - 1])) [0..<g - 1]))"
proof -
  have "concat (map (\<lambda>col. render_cell (buildDefaultMesh g g) (Fin w) (Fin h) g video row col)
                    [0..<g - 1])
      = concat (map (\<lambda>col. concat (map (\<lambda>i. map (\<lambda>j.
                     unwarped_call w h (if vw0 = 0 then w else vw0) (if vh0 = 0 then h else vh0)
                       g row col i j) [0..<2]) [0..<2])) [0..<g - 1])"
    if "row < g - 1" for row
    using render_cell_identity [OF assms(1-5,8,9) that]
    by (intro arg_cong [where f = concat] map_cong) simp_all
  then have eq: "map (\<lambda>row. concat (map (\<lambda>col.
                 render_cell (buildDefaultMesh g g) (Fin w) (Fin h) g video row col) [0..<g - 1]))
               [0..<g - 1]
      = map (\<lambda>row. concat (map (\<lambda>col. concat (map (\<lambda>i. map (\<lambda>j.
                     unwarped_call w h (if vw0 = 0 then w else vw0) (if vh0 = 0 then h else vh0)
                       g row col i j) [0..<2]) [0..<2])) [0..<g - 1])) [0..<g - 1]"
    by (intro map_cong) simp_all
  from assms(6,7) have "\<not> paused video \<and> \<not> ended video" by simp
  then show ?thesis unfolding render_def eq by (rule if_P)
qed

theorem render_identity_witness:
  "(2::nat) \<le> 2 \<and> (0::real) < 800 \<and> (0::real) < 600 \<and> (0::real) \<le> 400 \<and> (0::real) \<le> 300
   \<and> \<not> paused sample_video \<and> \<not> ended sample_video
   \<and> videoWidth sample_video = Fin 400 \<and> videoHeight sample_video = Fin 300
   \<and> render (buildDefaultMesh 2 2) (Fin 800) (Fin 600) 2 sample_video =
       Some [\<lparr>clipPath = [\<lparr>pt_x = Fin 0, pt_y = Fin 0\<rparr>, \<lparr>pt_x = Fin 400, pt_y = Fin 0\<rparr>,
                           \<lparr>pt_x = Fin 400, pt_y = Fin 300\<rparr>, \<lparr>pt_x = Fin 0, pt_y = Fin 300\<rparr>],
              srcRect = (Fin 0, Fin 0, Fin 200, Fin 150),
              dstRect = (Fin 0, Fin 0, Fin 400, Fin 300)\<rparr>,
             \<lparr>clipPath = [\<lparr>pt_x = Fin 0, pt_y = Fin 300\<rparr>, \<lparr>pt_x = Fin 400, pt_y = Fin 300\<rparr>,
                           \<lparr>pt_x = Fin 400, pt_y = Fin 600\<rparr>, \<lparr>pt_x = Fin 0, pt_y = Fin 600\<rparr>],
              srcRect = (Fin 0, Fin 150, Fin 200, Fin 150),
              dstRect = (Fin 0, Fin 300, Fin 400, Fin 300)\<rparr>,
             \<lparr>clipPath = [\<lparr>pt_x = Fin 400, pt_y = Fin 0\<rparr>, \<lparr>pt_x = Fin 800, pt_y = Fin 0\<rparr>,
                           \<lparr>pt_x = Fin 800, pt_y = Fin 300\<rparr>, \<lparr>pt_x = Fin 400, pt_y = Fin 300\<rparr>],
              srcRect = (Fin 200, Fin 0, Fin 200, Fin 150),
              dstRect = (Fin 400, Fin 0, Fin 400, Fin 300)\<rparr>,
             \<lparr>clipPath = [\<lparr>pt_x = Fin 400, pt_y = Fin 300\<rparr>, \<lparr>pt_x = Fin 800, pt_y = Fin 300\<rparr>,
                           \<lparr>pt_x = Fin 800, pt_y = Fin 600\<rparr>, \<lparr>pt_x = Fin 400, pt_y = Fin 600\<rparr>],
              srcRect = (Fin 200, Fin 150, Fin 200, Fin 150),
              dstRect = (Fin 400, Fin 300, Fin 400, Fin 300)\<rparr>]"
proof -
  have v: "\<not> paused sample_video" "\<not> ended sample_video"
    "videoWidth sample_video = Fin 400" "videoHeight sample_video = Fin 300"
    by (simp_all add: sample_video_def)
  have h: "(2::nat) \<le> 2" "(0::real) < 800" "(0::real) < 600" "(0::real) \<le> 400" "(0::real) \<le> 300"
    by simp_all
  from render_identity [OF h v] v h show ?thesis
    by (simp add: unwarped_call_def upt_rec)
qed

section \<open>Playback controller\<close>

lemma trigger_not_nav:
  assumes "key \<in> set TRIGGER_KEYS"
  shows "key \<noteq> ''Escape''" "key \<notin> set NEXT_CUE_KEYS" "key \<notin> set PREV_CUE_KEYS"
  using assms by (auto simp: TRIGGER_KEYS_def NEXT_CUE_KEYS_def PREV_CUE_KEYS_def)

lemma trigger_key_manual:
  assumes "key \<in> set TRIGGER_KEYS"
  shows "handleKeyPress key s = handleManualTrigger s"
  using assms trigger_not_nav [OF assms]
  by (simp add: handleKeyPress_def handleManualTrigger_def)

text \<open>
  Claim C8.  In the armed state (armed, not playing, no blackout) a trigger key and the
  manual trigger button have the same effect: the controller plays and is disarmed.  A
  further trigger in a playing state \<open>t\<close> changes nothing.  When playback finishes in a
  playing state whose current cue does not loop and has a successor, the cue cursor
  advances by exactly one and the controller is armed again.
\<close>

theorem playback_transitions:
  assumes key: "key \<in> set TRIGGER_KEYS"
    and s: "armed s" "\<not> playing s" "\<not> blackout s"
    and t: "playing t" "\<not> armed t"
    and cue: "js_index (videoCues t) (currentCueIndex t) = Some cue" "\<not> cue_loop cue"
    and nxt: "currentCueIndex t + 1 < length (videoCues t)"
  shows "handleKeyPress key s = s\<lparr>playing := True, armed := False, showControls := False\<rparr>
       \<and> handleManualTrigger s = handleKeyPress key s
       \<and> playing (handleKeyPress key s) \<and> \<not> armed (handleKeyPress key s)
       \<and> handleKeyPress key (handleKeyPress key s) = handleKeyPress key s
       \<and> handleManualTrigger (handleKeyPress key s) = handleKeyPress key s
       \<and> handleKeyPress key t = t \<and> handleManualTrigger t = t
       \<and> handlePlaybackFinished t
            = t\<lparr>playing := False, armed := True, currentCueIndex := currentCueIndex t + 1\<rparr>
       \<and> currentCueIndex (handlePlaybackFinished t) = currentCueIndex t + 1
       \<and> armed (handlePlaybackFinished t) \<and> \<not> playing (handlePlaybackFinished t)"
proof -
  have m: "handleManualTrigger s = s\<lparr>playing := True, armed := False, showControls := False\<rparr>"
    using s by (simp add: handleManualTrigger_def)
  have k: "handleKeyPress key s = handleManualTrigger s"
    by (rule trigger_key_manual [OF key])
  have again: "handleManualTrigger (handleManualTrigger s) = handleManualTrigger s"
    unfolding m by (simp add: handleManualTrigger_def)
  have t1: "handleManualTrigger t = t" using t by (simp add: handleManualTrigger_def)
  have fin: "handlePlaybackFinished t
            = t\<lparr>playing := False, armed := True, currentCueIndex := currentCueIndex t + 1\<rparr>"
    using cue nxt by (simp add: handlePlaybackFinished_def handleNextCue_def currentCueLoop_def)
  show ?thesis
    unfolding trigger_key_manual [OF key] again t1 fin unfolding m by simp
qed

theorem playback_transitions_witness:
  "'' '' \<in> set TRIGGER_KEYS
   \<and> armed (initialPlaybackState sample_cues 0) \<and> \<not> playing (initialPlaybackState sample_cues 0)
   \<and> \<not> blackout (initialPlaybackState sample_cues 0)
   \<and> playing (handleKeyPress '' '' (initialPlaybackState sample_cues 0))
   \<and> \<not> armed (handleKeyPress '' '' (initialPlaybackState sample_cues 0))
   \<and> js_index (videoCues (handleKeyPress '' '' (initialPlaybackState sample_cues 0)))
        (currentCueIndex (handleKeyPress '' '' (initialPlaybackState sample_cues 0)))
       = Some (hd sample_cues)
   \<and> \<not> cue_loop (hd sample_cues)
   \<and> currentCueIndex (handleKeyPress '' '' (initialPlaybackState sample_cues 0)) + 1
       < length (videoCues (handleKeyPress '' '' (initialPlaybackState sample_cues 0)))
   \<and> handleManualTrigger (initialPlaybackState sample_cues 0)
       = handleKeyPress '' '' (initialPlaybackState sample_cues 0)
   \<and> handleKeyPress '' '' (handleKeyPress '' '' (initialPlaybackState sample_cues 0))
       = handleKeyPress '' '' (initialPlaybackState sample_cues 0)
   \<and> handlePlaybackFinished (handleKeyPress '' '' (initialPlaybackState sample_cues 0))
       = \<lparr>playing = False, armed = True, showControls = False, blackout = False,
          videoCues = sample_cues, currentCueIndex = 1\<rparr>"
proof -
  let ?s = "initialPlaybackState sample_cues 0"
  let ?t = "handleKeyPress '' '' ?s"
  have key: "'' '' \<in> set TRIGGER_KEYS" by (simp add: TRIGGER_KEYS_def)
  have s: "armed ?s" "\<not> playing ?s" "\<not> blackout ?s"
    by (simp_all add: initialPlaybackState_def)
  have t_eq: "?t = \<lparr>playing = True, armed = False, showControls = False, blackout = False,
          videoCues = sample_cues, currentCueIndex = 0\<rparr>"
    by (simp add: handleKeyPress_def initialPlaybackState_def TRIGGER_KEYS_def NEXT_CUE_KEYS_def
        PREV_CUE_KEYS_def)
  have t: "playing ?t" "\<not> armed ?t" by (simp_all add: t_eq)
  have cue: "js_index (videoCues ?t) (currentCueIndex ?t) = Some (hd sample_cues)"
    "\<not> cue_loop (hd sample_cues)" "currentCueIndex ?t + 1 < length (videoCues ?t)"
    unfolding t_eq by (simp_all add: js_index_def sample_cues_def)
  note c = playback_transitions [OF key s t cue]
  from c have m: "handleManualTrigger ?s = ?t" by blast
  from c have again: "handleKeyPress '' '' ?t = ?t" by blast
  from c have "handlePlaybackFinished ?t
      = ?t\<lparr>playing := False, armed := True, currentCueIndex := currentCueIndex ?t + 1\<rparr>"
    by blast
  also have "\<dots> = \<lparr>playing = False, armed = True, showControls = False, blackout = False,
          videoCues = sample_cues, currentCueIndex = 1\<rparr>"
    unfolding t_eq by simp
  finally have fin: "handlePlaybackFinished ?t
      = \<lparr>playing = False, armed = True, showControls = False, blackout = False,
          videoCues = sample_cues, currentCueIndex = 1\<rparr>" .
  show ?thesis by (intro conjI key s t cue m again fin)
qed

end
